theory Spec2Isabelle
  imports Complex_Main "HOL-Library.Word" "HOL-Library.Sublist"
begin

section \<open>Python values\<close>

text \<open>
  The client \<^verbatim>\<open>Danmuji\<close> of \<^verbatim>\<open>src/minesweeper/danmuji.py\<close> reads \<^verbatim>\<open>bytes\<close> from a
  websocket, and works on Python \<^verbatim>\<open>str\<close> values and on the objects \<^verbatim>\<open>json.loads\<close>
  returns. A \<^verbatim>\<open>bytes\<close> value is a list of 8-bit words. A \<^verbatim>\<open>str\<close> is a list of Unicode
  code points (Python indexes, compares and matches a \<^verbatim>\<open>str\<close> by code point), so the
  full-width exclamation mark of the source is the one code point 65281 and the gift name
  of line 85 is the two code points 21507 and 29916.
\<close>

type_synonym byte = "8 word"
type_synonym bytes = "byte list"
type_synonym pystr = "nat list"

definition ascii :: "string \<Rightarrow> pystr" where
  "ascii s = map of_char s"

text \<open>
  A Python \<^verbatim>\<open>float\<close>. The client never computes with one: a float can only be carried
  along, as the user name of a command.
\<close>

datatype pyfloat = Finite real | PosInf | NegInf | NaN

text \<open>The objects \<^verbatim>\<open>json.loads\<close> returns; a \<^verbatim>\<open>dict\<close> is read with \<open>map_of\<close>.\<close>

datatype pyval =
    PNone
  | PBool bool
  | PInt int
  | PFloat pyfloat
  | PStr pystr
  | PList "pyval list"
  | PDict "(pystr \<times> pyval) list"

text \<open>The exceptions the code can raise.\<close>

datatype pyerror =
    ValueError
  | KeyError
  | TypeError
  | IndexError
  | JSONDecodeError
  | ZlibError
  | RecursionError

definition bindE :: "pyerror + 'a \<Rightarrow> ('a \<Rightarrow> pyerror + 'b) \<Rightarrow> pyerror + 'b" where
  "bindE m f = (case m of Inl e \<Rightarrow> Inl e | Inr x \<Rightarrow> f x)"

text \<open>
  \<^verbatim>\<open>obj['key']\<close>: a \<^verbatim>\<open>dict\<close> raises KeyError on a missing key, every other object
  of JSON raises TypeError (a list or a str wants an integer index, the others are not
  subscriptable).
\<close>

fun getitem_str :: "pyval \<Rightarrow> pystr \<Rightarrow> pyerror + pyval" where
  "getitem_str (PDict kvs) k = (case map_of kvs k of None \<Rightarrow> Inl KeyError | Some v \<Rightarrow> Inr v)"
| "getitem_str _ k = Inl TypeError"

text \<open>
  \<^verbatim>\<open>obj[i]\<close> for the literal indices 1 and 2 of line 104: a list gives its element, a
  \<^verbatim>\<open>str\<close> the one-character \<^verbatim>\<open>str\<close> at that position, both raise IndexError out of
  range; a \<^verbatim>\<open>dict\<close> of JSON has only \<^verbatim>\<open>str\<close> keys, so an integer key raises KeyError.
\<close>

fun getitem_int :: "pyval \<Rightarrow> nat \<Rightarrow> pyerror + pyval" where
  "getitem_int (PList xs) i = (if i < length xs then Inr (xs ! i) else Inl IndexError)"
| "getitem_int (PStr s) i = (if i < length s then Inr (PStr [s ! i]) else Inl IndexError)"
| "getitem_int (PDict kvs) i = Inl KeyError"
| "getitem_int _ i = Inl TypeError"

section \<open>The libraries the client calls\<close>

text \<open>
  \<^verbatim>\<open>zlib.decompress\<close>, \<^verbatim>\<open>bytes.decode('utf-8', errors='ignore')\<close>, \<^verbatim>\<open>json.loads\<close> and the
  Unicode table behind \<^verbatim>\<open>\d\<close> and \<^verbatim>\<open>int\<close> are not code of this repository: they are
  parameters of the model. \<open>Inl\<close> is a raised exception. \<open>unicode_decimal\<close> gives the
  digit value of a code point above 127 of category Nd. What the patterns need of the
  table is written out in \<open>decimal\<close> below: the digits below 128 are \<^verbatim>\<open>0\<close> to \<^verbatim>\<open>9\<close>, and
  the full-width exclamation mark is punctuation, not a digit.
\<close>

record libs =
  zlib_decompress :: "bytes \<Rightarrow> pyerror + bytes"
  utf8_decode_ignore :: "bytes \<Rightarrow> pystr"
  json_loads :: "pystr \<Rightarrow> pyerror + pyval"
  unicode_decimal :: "nat \<Rightarrow> nat option"

section \<open>The client's state\<close>

text \<open>
  A command is the tuple appended to \<^verbatim>\<open>danmu_list\<close>: the user (any object of the JSON),
  the operation (\<^verbatim>\<open>"gift"\<close>, \<^verbatim>\<open>"check"\<close>, \<^verbatim>\<open>"uncheck"\<close>, \<^verbatim>\<open>"open"\<close>, \<^verbatim>\<open>"difficulty"\<close>) and
  the argument: a \<^verbatim>\<open>str\<close> or the pair (column, row).
\<close>

datatype arg = Str pystr | Cell int int

type_synonym danmu = "pyval \<times> string \<times> arg"

record danmuji =
  room_id :: pystr
  danmu_list :: "danmu list"

text \<open>
  An append to the list, as at lines 86 to 88: \<^verbatim>\<open>acquire\<close>, \<^verbatim>\<open>append\<close>, \<^verbatim>\<open>release\<close>. Within
  one thread the three are one step; the lock is in the model of the two threads below.
\<close>

definition append_danmu :: "danmu \<Rightarrow> danmuji \<Rightarrow> danmuji" where
  "append_danmu c st = st\<lparr>danmu_list := danmu_list st @ [c]\<rparr>"

text \<open>\<^verbatim>\<open>get_danmu_list\<close>, lines 28 to 33, as one step: the copy returned, the list cleared.\<close>

definition get_danmu_list :: "danmuji \<Rightarrow> danmu list \<times> danmuji" where
  "get_danmu_list st = (danmu_list st, st\<lparr>danmu_list := []\<rparr>)"

section \<open>The three patterns of lines 106, 121 and 136\<close>

text \<open>
  \<^verbatim>\<open>re.match\<close> anchors the pattern at the start of the text and backtracks: it returns
  the first way to match, alternatives from left to right, a greedy \<^verbatim>\<open>?\<close> taking its
  character first. A pattern is modelled as the list of all its ways to match a prefix,
  in that order, each with the text matched and the text left.
\<close>

type_synonym rx = "pystr \<Rightarrow> (pystr \<times> pystr) list"

definition rx_opt :: "nat \<Rightarrow> rx" where
  "rx_opt c s = (case s of [] \<Rightarrow> [([], s)]
                 | x # xs \<Rightarrow> if x = c then [([c], xs), ([], s)] else [([], s)])"

definition rx_class :: "(nat \<Rightarrow> bool) \<Rightarrow> rx" where
  "rx_class P s = (case s of [] \<Rightarrow> [] | x # xs \<Rightarrow> if P x then [([x], xs)] else [])"

definition rx_lit :: "pystr \<Rightarrow> rx" where
  "rx_lit w s = (if take (length w) s = w then [(w, drop (length w) s)] else [])"

definition rx_seq :: "rx \<Rightarrow> rx \<Rightarrow> rx" where
  "rx_seq p q s = concat (map (\<lambda>(a, r). map (\<lambda>(b, r'). (a @ b, r')) (q r)) (p s))"

definition rx_alt :: "rx \<Rightarrow> rx \<Rightarrow> rx" where
  "rx_alt p q s = p s @ q s"

text \<open>A pattern of three groups in a row: the groups of the first way to match.\<close>

definition rx_match3 :: "rx \<Rightarrow> rx \<Rightarrow> rx \<Rightarrow> pystr \<Rightarrow> (pystr \<times> pystr \<times> pystr) option" where
  "rx_match3 g1 g2 g3 s =
     (case concat (map (\<lambda>(a, r1). concat (map (\<lambda>(b, r2). map (\<lambda>(c, r3). (a, b, c)) (g3 r2)) (g2 r1))) (g1 s))
      of [] \<Rightarrow> None | m # _ \<Rightarrow> Some m)"

definition rx_match1 :: "rx \<Rightarrow> pystr \<Rightarrow> pystr option" where
  "rx_match1 g s = (case g s of [] \<Rightarrow> None | (a, r) # _ \<Rightarrow> Some a)"

definition fullwidth_bang :: nat where
  "fullwidth_bang = 65281"

definition is_lower :: "nat \<Rightarrow> bool" where
  "is_lower c = (97 \<le> c \<and> c \<le> 122)"

definition is_upper :: "nat \<Rightarrow> bool" where
  "is_upper c = (65 \<le> c \<and> c \<le> 90)"

definition decimal :: "libs \<Rightarrow> nat \<Rightarrow> nat option" where
  "decimal L c = (if 48 \<le> c \<and> c \<le> 57 then Some (c - 48)
                  else if c < 128 \<or> c = fullwidth_bang then None else unicode_decimal L c)"

definition is_digit :: "libs \<Rightarrow> nat \<Rightarrow> bool" where
  "is_digit L c = (decimal L c \<noteq> None)"

text \<open>\<^verbatim>\<open>(!?!?|\<dots>)\<close> with the full-width mark in the second alternative.\<close>

definition rx_bangs :: rx where
  "rx_bangs = rx_alt (rx_seq (rx_opt 33) (rx_opt 33))
                     (rx_seq (rx_opt fullwidth_bang) (rx_opt fullwidth_bang))"

text \<open>\<^verbatim>\<open>([a-z]|[A-Z])\<close>\<close>

definition rx_letter :: rx where
  "rx_letter = rx_alt (rx_class is_lower) (rx_class is_upper)"

text \<open>\<^verbatim>\<open>(\d\d|\d)\<close>\<close>

definition rx_digits :: "libs \<Rightarrow> rx" where
  "rx_digits L = rx_alt (rx_seq (rx_class (is_digit L)) (rx_class (is_digit L)))
                        (rx_class (is_digit L))"

text \<open>\<^verbatim>\<open>(easy|normal|EASY|NORMAL)\<close>\<close>

definition rx_level :: rx where
  "rx_level = rx_alt (rx_lit (ascii ''easy'')) (rx_alt (rx_lit (ascii ''normal''))
                (rx_alt (rx_lit (ascii ''EASY'')) (rx_lit (ascii ''NORMAL''))))"

text \<open>
  \<^verbatim>\<open>ord(g.lower()) - ord('a')\<close> for a group \<open>g\<close> of one letter, and \<^verbatim>\<open>int(g)\<close> for a group
  of decimal digits (the only strings the patterns hand to them; \<^verbatim>\<open>ord\<close> raises
  TypeError on any other length, and \<^verbatim>\<open>int\<close> ValueError on a character that is no
  digit). \<^verbatim>\<open>upper\<close> is applied to the four ASCII words of the third pattern only.
\<close>

definition lower_char :: "nat \<Rightarrow> nat" where
  "lower_char c = (if is_upper c then c + 32 else c)"

definition upper_char :: "nat \<Rightarrow> nat" where
  "upper_char c = (if is_lower c then c - 32 else c)"

definition column_of :: "pystr \<Rightarrow> pyerror + int" where
  "column_of g = (case g of [c] \<Rightarrow> Inr (int (lower_char c) - 97) | _ \<Rightarrow> Inl TypeError)"

fun int_digits :: "libs \<Rightarrow> nat \<Rightarrow> pystr \<Rightarrow> pyerror + int" where
  "int_digits L acc [] = Inr (int acc)"
| "int_digits L acc (c # cs) =
     (case decimal L c of None \<Rightarrow> Inl ValueError | Some v \<Rightarrow> int_digits L (10 * acc + v) cs)"

definition py_int :: "libs \<Rightarrow> pystr \<Rightarrow> pyerror + int" where
  "py_int L g = (if g = [] then Inl ValueError else int_digits L 0 g)"

text \<open>Lines 109 to 117 (and 124 to 132): the operation chosen by the first group.\<close>

definition operation_of :: "pystr \<Rightarrow> string" where
  "operation_of g1 =
     (if g1 = [33] \<or> g1 = [fullwidth_bang] then ''check''
      else if g1 = [33, 33] \<or> g1 = [fullwidth_bang, fullwidth_bang] then ''uncheck''
      else ''open'')"

text \<open>
  Lines 106 to 141: the text of a chat message against the three patterns, in the
  order of the source. \<^verbatim>\<open>re.match\<close> raises TypeError when the text is no \<^verbatim>\<open>str\<close>. The
  calls of \<^verbatim>\<open>print\<close> are left out (here and below): they write to the console only,
  and are taken not to raise.
\<close>

definition on_danmu_msg :: "libs \<Rightarrow> pyval \<Rightarrow> pyval \<Rightarrow> danmuji \<Rightarrow> pyerror + danmuji" where
  "on_danmu_msg L user text st =
     (case text of
        PStr s \<Rightarrow>
          (case rx_match3 rx_bangs rx_letter (rx_digits L) s of
             Some (g1, g2, g3) \<Rightarrow>
               bindE (column_of g2) (\<lambda>col. bindE (py_int L g3) (\<lambda>row.
                 Inr (append_danmu (user, operation_of g1, Cell col row) st)))
           | None \<Rightarrow>
               (case rx_match3 rx_bangs (rx_digits L) rx_letter s of
                  Some (g1, g2, g3) \<Rightarrow>
                    bindE (column_of g3) (\<lambda>col. bindE (py_int L g2) (\<lambda>row.
                      Inr (append_danmu (user, operation_of g1, Cell col row) st)))
                | None \<Rightarrow>
                    (case rx_match1 rx_level s of
                       Some g \<Rightarrow> Inr (append_danmu (user, ''difficulty'', Str (map upper_char g)) st)
                     | None \<Rightarrow> Inr st)))
      | _ \<Rightarrow> Inl TypeError)"

section \<open>Business events and frames\<close>

definition gift_name :: pystr where
  "gift_name = [21507, 29916]"

text \<open>
  Lines 81 to 141, the body of the \<^verbatim>\<open>try\<close>, on the object \<open>jd\<close> that \<^verbatim>\<open>json.loads\<close>
  returned. The source reads \<^verbatim>\<open>jd['cmd']\<close> again at each \<^verbatim>\<open>elif\<close>; the second read
  gives what the first gave, so it is read once here.
\<close>

definition on_business :: "libs \<Rightarrow> pyval \<Rightarrow> danmuji \<Rightarrow> pyerror + danmuji" where
  "on_business L jd st =
     bindE (getitem_str jd (ascii ''cmd'')) (\<lambda>cmd.
       if cmd = PStr (ascii ''SEND_GIFT'') then
         bindE (getitem_str jd (ascii ''data'')) (\<lambda>d.
         bindE (getitem_str d (ascii ''uname'')) (\<lambda>uname.
         bindE (getitem_str d (ascii ''num'')) (\<lambda>num.
         bindE (getitem_str d (ascii ''giftName'')) (\<lambda>giftName.
           if giftName = PStr gift_name
           then Inr (append_danmu (uname, ''gift'', Str []) st)
           else Inr st))))
       else if cmd = PStr (ascii ''GUARD_BUY'') then
         bindE (getitem_str jd (ascii ''data'')) (\<lambda>d.
         bindE (getitem_str d (ascii ''username'')) (\<lambda>username.
           Inr (append_danmu (username, ''gift'', Str []) st)))
       else if cmd = PStr (ascii ''DANMU_MSG'') then
         bindE (getitem_str jd (ascii ''info'')) (\<lambda>i0.
         bindE (getitem_int i0 2) (\<lambda>i2.
         bindE (getitem_int i2 1) (\<lambda>user.
         bindE (getitem_str jd (ascii ''info'')) (\<lambda>i1.
         bindE (getitem_int i1 1) (\<lambda>text.
           on_danmu_msg L user text st)))))
       else Inr st)"

text \<open>
  Lines 78 to 143 for \<^verbatim>\<open>op == 5\<close>: the \<^verbatim>\<open>try\<close> around \<^verbatim>\<open>json.loads\<close> and the body above.
  \<^verbatim>\<open>except Exception\<close> catches every exception of the model; the state is then what
  it was when the exception was raised, and every raise of the body comes before its
  append.
\<close>

definition on_op5 :: "libs \<Rightarrow> bytes \<Rightarrow> danmuji \<Rightarrow> danmuji" where
  "on_op5 L payload st =
     (case bindE (json_loads L (utf8_decode_ignore L payload)) (\<lambda>jd. on_business L jd st) of
        Inl e \<Rightarrow> st
      | Inr st' \<Rightarrow> st')"

text \<open>
  \<^verbatim>\<open>int(b.hex(), 16)\<close>: the big-endian value of the bytes; \<^verbatim>\<open>int('', 16)\<close> raises
  ValueError. A slice of Python never raises: \<^verbatim>\<open>data[a:b]\<close> is \<open>take (b - a) (drop a data)\<close>.
\<close>

definition int_hex :: "bytes \<Rightarrow> pyerror + nat" where
  "int_hex bs = (if bs = [] then Inl ValueError
                 else Inr (foldl (\<lambda>a b. a * 256 + unat b) 0 bs))"

datatype outcome = Returned | Raised pyerror

text \<open>
  \<^verbatim>\<open>decode_danmu\<close>, lines 58 to 143. The function calls itself on the rest of the buffer
  and on a decompressed payload, and Python bounds the depth of the calls: the first
  argument is the number of nested calls still allowed, and a call beyond it raises
  RecursionError. An exception leaves the commands appended before it in the list, so
  the state is returned with the outcome.
\<close>

fun decode_danmu :: "libs \<Rightarrow> nat \<Rightarrow> bytes \<Rightarrow> danmuji \<Rightarrow> outcome \<times> danmuji" where
  "decode_danmu L 0 data st = (Raised RecursionError, st)"
| "decode_danmu L (Suc n) data st =
     (case int_hex (take 4 data) of Inl e \<Rightarrow> (Raised e, st) | Inr packet_len \<Rightarrow>
     (case int_hex (take 2 (drop 6 data)) of Inl e \<Rightarrow> (Raised e, st) | Inr ver \<Rightarrow>
     (case int_hex (take 4 (drop 8 data)) of Inl e \<Rightarrow> (Raised e, st) | Inr op \<Rightarrow>
     (case (if length data > packet_len then decode_danmu L n (drop packet_len data) st
            else (Returned, st)) of
        (Raised e, st1) \<Rightarrow> (Raised e, st1)
      | (Returned, st1) \<Rightarrow>
          (let data1 = (if length data > packet_len then take packet_len data else data) in
           if ver = 2 then
             (case zlib_decompress L (drop 16 data1) of
                Inl e \<Rightarrow> (Raised e, st1)
              | Inr data2 \<Rightarrow> decode_danmu L n data2 st1)
           else if ver = 1 then (Returned, st1)
           else if op = 5 then (Returned, on_op5 L (drop 16 data1) st1)
           else (Returned, st1))))))"

declare decode_danmu.simps(2) [simp del]

text \<open>
  \<^verbatim>\<open>recv_danmu\<close>, lines 53 to 56, on the messages the websocket delivers, in order. The
  loop has no handler: an exception of \<^verbatim>\<open>decode_danmu\<close> ends it, and the messages after
  that one are never decoded. \<open>Returned\<close> here says that the loop has decoded every
  message so far and waits for the next.
\<close>

fun recv_danmu :: "libs \<Rightarrow> nat \<Rightarrow> bytes list \<Rightarrow> danmuji \<Rightarrow> outcome \<times> danmuji" where
  "recv_danmu L n [] st = (Returned, st)"
| "recv_danmu L n (recv_text # rest) st =
     (case decode_danmu L n recv_text st of
        (Raised e, st1) \<Rightarrow> (Raised e, st1)
      | (Returned, st1) \<Rightarrow> recv_danmu L n rest st1)"


section \<open>The command list between two threads\<close>

text \<open>
  \<^verbatim>\<open>run\<close> (lines 150 to 155) starts the receive loop on a thread of its own; the game
  calls \<^verbatim>\<open>get_danmu_list\<close> from another. Both take \<^verbatim>\<open>self.lock\<close> around what they do
  to \<^verbatim>\<open>danmu_list\<close>. The statements of the two threads, one step each, in any order a
  schedule gives: an append is \<^verbatim>\<open>acquire\<close>, \<^verbatim>\<open>append\<close>, \<^verbatim>\<open>release\<close> (lines 86 to 88 and the
  like), \<^verbatim>\<open>get_danmu_list\<close> is \<^verbatim>\<open>acquire\<close>, \<^verbatim>\<open>copy\<close>, \<^verbatim>\<open>clear\<close>, \<^verbatim>\<open>release\<close> and the return of
  the copy. \<^verbatim>\<open>acquire\<close> on a held lock blocks: that step is not possible then. \<open>pushed\<close>
  and \<open>delivered\<close> are not in the source: they record the commands appended and the
  commands returned so far.
\<close>

datatype getter_pc = GIdle | GLocked | GCopied "danmu list" | GCleared "danmu list"

datatype appender_pc = AIdle | ALocked danmu | AAppended

record world =
  client :: danmuji
  lock_held :: bool
  getter :: getter_pc
  appender :: appender_pc
  pushed :: "danmu list"
  delivered :: "danmu list"

datatype event =
    AppendAcquire danmu
  | AppendDo
  | AppendRelease
  | GetAcquire
  | GetCopy
  | GetClear
  | GetRelease

fun step :: "event \<Rightarrow> world \<Rightarrow> world option" where
  "step (AppendAcquire c) w =
     (if appender w = AIdle \<and> \<not> lock_held w
      then Some (w\<lparr>lock_held := True, appender := ALocked c\<rparr>) else None)"
| "step AppendDo w =
     (case appender w of
        ALocked c \<Rightarrow> Some (w\<lparr>client := append_danmu c (client w), appender := AAppended,
                               pushed := pushed w @ [c]\<rparr>)
      | _ \<Rightarrow> None)"
| "step AppendRelease w =
     (if appender w = AAppended
      then Some (w\<lparr>lock_held := False, appender := AIdle\<rparr>) else None)"
| "step GetAcquire w =
     (if getter w = GIdle \<and> \<not> lock_held w
      then Some (w\<lparr>lock_held := True, getter := GLocked\<rparr>) else None)"
| "step GetCopy w =
     (if getter w = GLocked
      then Some (w\<lparr>getter := GCopied (danmu_list (client w))\<rparr>) else None)"
| "step GetClear w =
     (case getter w of
        GCopied l \<Rightarrow> Some (w\<lparr>client := (client w)\<lparr>danmu_list := []\<rparr>, getter := GCleared l\<rparr>)
      | _ \<Rightarrow> None)"
| "step GetRelease w =
     (case getter w of
        GCleared l \<Rightarrow> Some (w\<lparr>lock_held := False, getter := GIdle,
                               delivered := delivered w @ l\<rparr>)
      | _ \<Rightarrow> None)"

fun run_schedule :: "event list \<Rightarrow> world \<Rightarrow> world option" where
  "run_schedule [] w = Some w"
| "run_schedule (e # es) w = (case step e w of None \<Rightarrow> None | Some w' \<Rightarrow> run_schedule es w')"

text \<open>The constructor, lines 23 to 26: an empty list and a free lock.\<close>

definition start :: "pystr \<Rightarrow> world" where
  "start rid = \<lparr>client = \<lparr>room_id = rid, danmu_list = []\<rparr>, lock_held = False,
                getter = GIdle, appender = AIdle, pushed = [], delivered = []\<rparr>"

text \<open>The copy \<^verbatim>\<open>get_danmu_list\<close> holds between its \<^verbatim>\<open>clear\<close> and its return.\<close>

definition in_flight :: "world \<Rightarrow> danmu list" where
  "in_flight w = (case getter w of GCleared l \<Rightarrow> l | _ \<Rightarrow> [])"

text \<open>What every reachable state satisfies; the lock is held by one thread at most.\<close>

definition lock_inv :: "world \<Rightarrow> bool" where
  "lock_inv w =
     ((lock_held w = (getter w \<noteq> GIdle \<or> appender w \<noteq> AIdle)) \<and>
      (getter w = GIdle \<or> appender w = AIdle) \<and>
      (case getter w of GCopied l \<Rightarrow> l = danmu_list (client w)
                      | GCleared l \<Rightarrow> danmu_list (client w) = []
                      | _ \<Rightarrow> True) \<and>
      delivered w @ in_flight w @ danmu_list (client w) = pushed w)"

section \<open>The wire format and the words of the specification\<close>

text \<open>
  A frame as the server sends it (and as line 37 builds the join frame): the length of
  the whole frame in 4 bytes, the header length 16 in 2, the version in 2, the opcode
  in 4, a sequence number in 4, all big-endian, then the payload.
\<close>

definition be16 :: "nat \<Rightarrow> bytes" where
  "be16 n = [of_nat (n div 256), of_nat n]"

definition be32 :: "nat \<Rightarrow> bytes" where
  "be32 n = [of_nat (n div 16777216), of_nat (n div 65536), of_nat (n div 256), of_nat n]"

definition mk_frame :: "nat \<Rightarrow> nat \<Rightarrow> bytes \<Rightarrow> bytes" where
  "mk_frame ver op payload =
     be32 (16 + length payload) @ be16 16 @ be16 ver @ be32 op @ be32 1 @ payload"

definition ascii_bytes :: "string \<Rightarrow> bytes" where
  "ascii_bytes s = map (\<lambda>c. of_nat (of_char c)) s"

text \<open>
  A structurally valid frame: a whole header, and a length field that is the length of
  the frame. It is uncompressed when its version is not 2.
\<close>

definition whole_frame :: "bytes \<Rightarrow> bool" where
  "whole_frame f = (16 \<le> length f \<and> int_hex (take 4 f) = Inr (length f))"

definition frame_ver :: "bytes \<Rightarrow> pyerror + nat" where
  "frame_ver f = int_hex (take 2 (drop 6 f))"

definition frame_op :: "bytes \<Rightarrow> pyerror + nat" where
  "frame_op f = int_hex (take 4 (drop 8 f))"

definition uncompressed_frame :: "bytes \<Rightarrow> bool" where
  "uncompressed_frame f = (whole_frame f \<and> frame_ver f \<noteq> Inr 2)"

definition compressed_frame :: "bytes \<Rightarrow> bool" where
  "compressed_frame f = (whole_frame f \<and> frame_ver f = Inr 2)"

text \<open>What a frame does to the client when it is decoded as a buffer of its own.\<close>

definition frame_alone :: "libs \<Rightarrow> bytes \<Rightarrow> danmuji \<Rightarrow> danmuji" where
  "frame_alone L f st = snd (decode_danmu L (Suc 0) f st)"

text \<open>
  Decoding the frames of a buffer one by one, the first frame first (the order of the
  specification) and the last frame first.
\<close>

definition first_frame_first :: "libs \<Rightarrow> bytes list \<Rightarrow> danmuji \<Rightarrow> danmuji" where
  "first_frame_first L fs st = foldl (\<lambda>s f. frame_alone L f s) st fs"

definition last_frame_first :: "libs \<Rightarrow> bytes list \<Rightarrow> danmuji \<Rightarrow> danmuji" where
  "last_frame_first L fs st = foldr (frame_alone L) fs st"

text \<open>The JSON of a business frame, as line 80 reads it.\<close>

definition frame_json :: "libs \<Rightarrow> bytes \<Rightarrow> pyerror + pyval" where
  "frame_json L f = json_loads L (utf8_decode_ignore L (drop 16 f))"

text \<open>
  An opcode-5 frame that reaches the parser is uncompressed and says opcode 5. The code
  returns at line 76 for every frame of version 1, so the frames it parses as business
  events have another version.
\<close>

definition opcode5_frame :: "bytes \<Rightarrow> bool" where
  "opcode5_frame f = (uncompressed_frame f \<and> frame_op f = Inr 5)"

definition business_frame :: "bytes \<Rightarrow> bool" where
  "business_frame f = (opcode5_frame f \<and> frame_ver f \<noteq> Inr 1)"

definition cmd_recognized :: "pyval \<Rightarrow> bool" where
  "cmd_recognized c = (c = PStr (ascii ''SEND_GIFT'') \<or> c = PStr (ascii ''GUARD_BUY'')
                       \<or> c = PStr (ascii ''DANMU_MSG''))"

text \<open>
  The JSON lacks an expected key: \<^verbatim>\<open>cmd\<close>, or for its \<^verbatim>\<open>cmd\<close> one of the keys and
  positions lines 82, 83, 97, 98 and 104 read.
\<close>

definition lacks_keys :: "pyval \<Rightarrow> bool" where
  "lacks_keys jd =
     (case getitem_str jd (ascii ''cmd'') of
        Inl e \<Rightarrow> True
      | Inr cmd \<Rightarrow>
          if cmd = PStr (ascii ''SEND_GIFT'') then
            (case getitem_str jd (ascii ''data'') of
               Inl e \<Rightarrow> True
             | Inr d \<Rightarrow> isl (getitem_str d (ascii ''uname'')) \<or> isl (getitem_str d (ascii ''num''))
                        \<or> isl (getitem_str d (ascii ''giftName'')))
          else if cmd = PStr (ascii ''GUARD_BUY'') then
            (case getitem_str jd (ascii ''data'') of
               Inl e \<Rightarrow> True
             | Inr d \<Rightarrow> isl (getitem_str d (ascii ''username'')))
          else if cmd = PStr (ascii ''DANMU_MSG'') then
            (case getitem_str jd (ascii ''info'') of
               Inl e \<Rightarrow> True
             | Inr i \<Rightarrow> isl (getitem_int i 1) \<or>
                        (case getitem_int i 2 of Inl e \<Rightarrow> True | Inr i2 \<Rightarrow> isl (getitem_int i2 1)))
          else False)"

definition cmd_unrecognized :: "pyval \<Rightarrow> bool" where
  "cmd_unrecognized jd =
     (case getitem_str jd (ascii ''cmd'') of Inl e \<Rightarrow> False | Inr c \<Rightarrow> \<not> cmd_recognized c)"

text \<open>
  The texts of the cell references: the five marker prefixes of the patterns, a letter
  by its index and case, and a number below 100 as Python writes it.
\<close>

definition markers :: "pystr list" where
  "markers = [[], [33], [fullwidth_bang], [33, 33], [fullwidth_bang, fullwidth_bang]]"

definition letter_text :: "bool \<Rightarrow> nat \<Rightarrow> pystr" where
  "letter_text up l = [(if up then 65 else 97) + l]"

definition number_text :: "nat \<Rightarrow> pystr" where
  "number_text r = (if r < 10 then [48 + r] else [48 + r div 10, 48 + r mod 10])"

definition ascii_digit :: "nat \<Rightarrow> bool" where
  "ascii_digit d = (48 \<le> d \<and> d \<le> 57)"

text \<open>The operation the specification gives to zero, one and two markers.\<close>

definition marker_operation :: "pystr \<Rightarrow> string" where
  "marker_operation m = (if length m = 0 then ''open'' else if length m = 1 then ''check''
                         else ''uncheck'')"


text \<open>
  What a handler can do to the client: raise before it has changed anything, leave the
  client as it is, or append one command.
\<close>

definition one_append :: "danmuji \<Rightarrow> pyerror + danmuji \<Rightarrow> bool" where
  "one_append st r = (isl r \<or> r = Inr st \<or> (\<exists>c. r = Inr (append_danmu c st)))"

section \<open>Sample libraries and frames\<close>

text \<open>
  Libraries and frames for the examples below. On the texts and the stream of their
  tables \<open>sample_json_loads\<close> and \<open>sample_decompress\<close> return what \<^verbatim>\<open>json.loads\<close> and
  \<^verbatim>\<open>zlib.decompress\<close> return (the stream is \<^verbatim>\<open>zlib.compress(frame_a + frame_b, 9)\<close>), and
  they raise on \<open>text_cut\<close> and on the empty stream as the libraries do; the examples
  use no other input. \<open>sample_utf8\<close> decodes ASCII, and \<open>sample_unicode_decimal\<close> knows
  the Arabic-Indic and the full-width digits.
\<close>

definition text_a :: string where
  \<open>text_a = ''{"cmd":"DANMU_MSG","info":[0,"A1",[7,"ann"]]}''\<close>

definition text_b :: string where
  \<open>text_b = ''{"cmd":"DANMU_MSG","info":[0,"!b2",[8,"bob"]]}''\<close>

definition text_gift :: string where
  \<open>text_gift = ''{"cmd":"SEND_GIFT","data":{"uname":"ann","num":1,"giftName":"''
     @ [CHR 0x5C] @ ''u5403'' @ [CHR 0x5C] @ ''u74dc"}}''\<close>

definition text_flower :: string where
  \<open>text_flower = ''{"cmd":"SEND_GIFT","data":{"uname":"ann","num":1,"giftName":"flower"}}''\<close>

definition text_guard :: string where
  \<open>text_guard = ''{"cmd":"GUARD_BUY","data":{"username":"bob"}}''\<close>

definition text_cut :: string where
  \<open>text_cut = ''{"cmd":''\<close>

definition text_nodata :: string where
  \<open>text_nodata = ''{"cmd":"SEND_GIFT"}''\<close>

definition text_notice :: string where
  \<open>text_notice = ''{"cmd":"NOTICE_MSG"}''\<close>

definition sample_json_loads :: "pystr \<Rightarrow> pyerror + pyval" where
  "sample_json_loads s =
     (if s = ascii text_a then
        Inr (PDict [(ascii ''cmd'', PStr (ascii ''DANMU_MSG'')),
                    (ascii ''info'', PList [PInt 0, PStr (ascii ''A1''),
                                            PList [PInt 7, PStr (ascii ''ann'')]])])
      else if s = ascii text_b then
        Inr (PDict [(ascii ''cmd'', PStr (ascii ''DANMU_MSG'')),
                    (ascii ''info'', PList [PInt 0, PStr (ascii ''!b2''),
                                            PList [PInt 8, PStr (ascii ''bob'')]])])
      else if s = ascii text_gift then
        Inr (PDict [(ascii ''cmd'', PStr (ascii ''SEND_GIFT'')),
                    (ascii ''data'', PDict [(ascii ''uname'', PStr (ascii ''ann'')),
                                            (ascii ''num'', PInt 1),
                                            (ascii ''giftName'', PStr [21507, 29916])])])
      else if s = ascii text_flower then
        Inr (PDict [(ascii ''cmd'', PStr (ascii ''SEND_GIFT'')),
                    (ascii ''data'', PDict [(ascii ''uname'', PStr (ascii ''ann'')),
                                            (ascii ''num'', PInt 1),
                                            (ascii ''giftName'', PStr (ascii ''flower''))])])
      else if s = ascii text_guard then
        Inr (PDict [(ascii ''cmd'', PStr (ascii ''GUARD_BUY'')),
                    (ascii ''data'', PDict [(ascii ''username'', PStr (ascii ''bob''))])])
      else if s = ascii text_nodata then
        Inr (PDict [(ascii ''cmd'', PStr (ascii ''SEND_GIFT''))])
      else if s = ascii text_notice then
        Inr (PDict [(ascii ''cmd'', PStr (ascii ''NOTICE_MSG''))])
      else Inl JSONDecodeError)"

definition sample_utf8 :: "bytes \<Rightarrow> pystr" where
  "sample_utf8 bs = map unat (filter (\<lambda>b. b < 128) bs)"

definition frame_a :: bytes where
  "frame_a = mk_frame 0 5 (ascii_bytes text_a)"

definition frame_b :: bytes where
  "frame_b = mk_frame 0 5 (ascii_bytes text_b)"

definition zlib_ab :: bytes where
  "zlib_ab = [120, 218, 99, 96, 96, 176, 101, 16, 96, 0, 1, 86, 32, 102, 172, 86, 74, 206, 77, 81, 178, 82, 114, 113, 244, 243, 13, 141, 247, 13, 118, 87, 210, 81, 202, 204, 75, 203, 87, 178, 138, 54, 208, 81, 114, 52, 84, 210, 137, 54, 215, 81, 74, 204, 203, 83, 138, 141, 173, 5, 106, 176, 35, 94, 179, 98, 146, 17, 80, 183, 133, 142, 82, 82, 126, 18, 72, 55, 0, 149, 47, 26, 4]"

definition sample_decompress :: "bytes \<Rightarrow> pyerror + bytes" where
  "sample_decompress z = (if z = zlib_ab then Inr (frame_a @ frame_b) else Inl ZlibError)"

definition sample_unicode_decimal :: "nat \<Rightarrow> nat option" where
  "sample_unicode_decimal c =
     (if 1632 \<le> c \<and> c \<le> 1641 then Some (c - 1632)
      else if 65296 \<le> c \<and> c \<le> 65305 then Some (c - 65296) else None)"

definition sample_libs :: libs where
  "sample_libs = \<lparr>zlib_decompress = sample_decompress, utf8_decode_ignore = sample_utf8,
                   json_loads = sample_json_loads, unicode_decimal = sample_unicode_decimal\<rparr>"

definition st0 :: danmuji where
  "st0 = \<lparr>room_id = ascii ''299992'', danmu_list = []\<rparr>"

definition frame_z :: bytes where
  "frame_z = mk_frame 2 5 zlib_ab"

definition frame_bad_z :: bytes where
  "frame_bad_z = mk_frame 2 5 []"

definition frame_gift :: bytes where
  "frame_gift = mk_frame 0 5 (ascii_bytes text_gift)"

definition frame_flower :: bytes where
  "frame_flower = mk_frame 0 5 (ascii_bytes text_flower)"

definition frame_guard :: bytes where
  "frame_guard = mk_frame 0 5 (ascii_bytes text_guard)"

definition frame_cut :: bytes where
  "frame_cut = mk_frame 0 5 (ascii_bytes text_cut)"

definition frame_nodata :: bytes where
  "frame_nodata = mk_frame 0 5 (ascii_bytes text_nodata)"

definition frame_notice :: bytes where
  "frame_notice = mk_frame 0 5 (ascii_bytes text_notice)"

text \<open>
  A header whose length field is 0, and a buffer cut inside the header of its second
  frame.
\<close>

definition zero_length_frame :: bytes where
  "zero_length_frame = be32 0 @ be16 16 @ be16 0 @ be32 5 @ be32 1"

definition truncated_buffer :: bytes where
  "truncated_buffer = frame_a @ take 8 frame_b"

definition ann :: pyval where
  "ann = PStr (ascii ''ann'')"

definition cmd_a :: danmu where
  "cmd_a = (PStr (ascii ''ann''), ''open'', Cell 0 1)"

definition cmd_b :: danmu where
  "cmd_b = (PStr (ascii ''bob''), ''check'', Cell 1 2)"

section \<open>Reading the header\<close>

lemma int_hex_Nil [simp]: "int_hex [] = Inl ValueError"
  by (simp add: int_hex_def)

lemma int_hex_nonempty: "bs \<noteq> [] \<Longrightarrow> \<exists>v. int_hex bs = Inr v"
  by (simp add: int_hex_def)

lemma decode_danmu_header:
  assumes "int_hex (take 4 data) = Inr pl"
    and "int_hex (take 2 (drop 6 data)) = Inr ver"
    and "int_hex (take 4 (drop 8 data)) = Inr op"
  shows "decode_danmu L (Suc n) data st =
     (case (if length data > pl then decode_danmu L n (drop pl data) st else (Returned, st)) of
        (Raised e, st1) \<Rightarrow> (Raised e, st1)
      | (Returned, st1) \<Rightarrow>
          (let data1 = (if length data > pl then take pl data else data) in
           if ver = 2 then
             (case zlib_decompress L (drop 16 data1) of
                Inl e \<Rightarrow> (Raised e, st1)
              | Inr data2 \<Rightarrow> decode_danmu L n data2 st1)
           else if ver = 1 then (Returned, st1)
           else if op = 5 then (Returned, on_op5 L (drop 16 data1) st1)
           else (Returned, st1)))"
  using assms by (simp add: decode_danmu.simps(2))

lemma header_readable:
  assumes "9 \<le> length data"
  obtains pl ver op where "int_hex (take 4 data) = Inr pl"
    and "int_hex (take 2 (drop 6 data)) = Inr ver"
    and "int_hex (take 4 (drop 8 data)) = Inr op"
proof -
  from assms have "take 4 data \<noteq> []" "take 2 (drop 6 data) \<noteq> []" "take 4 (drop 8 data) \<noteq> []"
    by auto
  then show ?thesis using that int_hex_nonempty by metis
qed

lemma decode_head_frame:
  assumes "whole_frame f" and "rest \<noteq> []"
  shows "decode_danmu L (Suc n) (f @ rest) st =
           (case decode_danmu L n rest st of
              (Raised e, s1) \<Rightarrow> (Raised e, s1)
            | (Returned, s1) \<Rightarrow> decode_danmu L (Suc n) f s1)"
proof -
  from assms(1) have len: "16 \<le> length f" and pl: "int_hex (take 4 f) = Inr (length f)"
    by (simp_all add: whole_frame_def)
  from len have "9 \<le> length f" by simp
  then obtain pl' ver op where h: "int_hex (take 4 f) = Inr pl'"
    "int_hex (take 2 (drop 6 f)) = Inr ver" "int_hex (take 4 (drop 8 f)) = Inr op"
    by (rule header_readable)
  have t: "take 4 (f @ rest) = take 4 f" "take 2 (drop 6 (f @ rest)) = take 2 (drop 6 f)"
    "take 4 (drop 8 (f @ rest)) = take 4 (drop 8 f)"
    using len by simp_all
  have whole: "decode_danmu L (Suc n) (f @ rest) st =
     (case decode_danmu L n rest st of
        (Raised e, st1) \<Rightarrow> (Raised e, st1)
      | (Returned, st1) \<Rightarrow>
           if ver = 2 then
             (case zlib_decompress L (drop 16 f) of
                Inl e \<Rightarrow> (Raised e, st1)
              | Inr data2 \<Rightarrow> decode_danmu L n data2 st1)
           else if ver = 1 then (Returned, st1)
           else if op = 5 then (Returned, on_op5 L (drop 16 f) st1)
           else (Returned, st1))"
    using assms(2) by (subst decode_danmu_header [where pl = "length f" and ver = ver and op = op])
      (simp_all only: t pl h, simp_all add: Let_def split: prod.splits outcome.splits)
  have alone: "decode_danmu L (Suc n) f s1 =
           (if ver = 2 then
             (case zlib_decompress L (drop 16 f) of
                Inl e \<Rightarrow> (Raised e, s1)
              | Inr data2 \<Rightarrow> decode_danmu L n data2 s1)
           else if ver = 1 then (Returned, s1)
           else if op = 5 then (Returned, on_op5 L (drop 16 f) s1)
           else (Returned, s1))" for s1
    by (subst decode_danmu_header [where pl = "length f" and ver = ver and op = op])
      (simp_all add: pl h)
  show ?thesis
    unfolding whole by (simp add: alone split: prod.splits outcome.splits)
qed

lemma decode_uncompressed_alone:
  assumes "uncompressed_frame f"
  shows "decode_danmu L (Suc n) f st = (Returned, frame_alone L f st)"
proof -
  from assms have len: "16 \<le> length f" and pl: "int_hex (take 4 f) = Inr (length f)"
    and v: "int_hex (take 2 (drop 6 f)) \<noteq> Inr 2"
    by (simp_all add: uncompressed_frame_def whole_frame_def frame_ver_def)
  from len have "9 \<le> length f" by simp
  then obtain pl' ver op where h: "int_hex (take 4 f) = Inr pl'"
    "int_hex (take 2 (drop 6 f)) = Inr ver" "int_hex (take 4 (drop 8 f)) = Inr op"
    by (rule header_readable)
  from v h have v2: "ver \<noteq> 2" by simp
  have "decode_danmu L (Suc k) f st =
           (if ver = 1 then (Returned, st)
           else if op = 5 then (Returned, on_op5 L (drop 16 f) st)
           else (Returned, st))" for k
    using v2 by (subst decode_danmu_header [where pl = "length f" and ver = ver and op = op])
      (simp_all add: pl h)
  then show ?thesis by (simp add: frame_alone_def)
qed

lemma concat_frames_nonempty:
  assumes "\<forall>f\<in>set fs. uncompressed_frame f" and "fs \<noteq> []"
  shows "concat fs \<noteq> []"
proof -
  from assms obtain f where "f \<in> set fs" "uncompressed_frame f" by (cases fs) auto
  then have "f \<noteq> []" by (auto simp: uncompressed_frame_def whole_frame_def)
  with \<open>f \<in> set fs\<close> show ?thesis by auto
qed

lemma decode_concat_frames:
  assumes "\<forall>f\<in>set fs. uncompressed_frame f" and "fs \<noteq> []" and "length fs \<le> n"
  shows "decode_danmu L n (concat fs) st = (Returned, last_frame_first L fs st)"
  using assms
proof (induction fs arbitrary: n)
  case Nil
  then show ?case by simp
next
  case (Cons f fs)
  from Cons.prems obtain m where n: "n = Suc m" and m: "length fs \<le> m"
    by (cases n) auto
  from Cons.prems have f: "uncompressed_frame f" and fs: "\<forall>g\<in>set fs. uncompressed_frame g"
    by simp_all
  show ?case
  proof (cases "fs = []")
    case True
    then show ?thesis
      using decode_uncompressed_alone [OF f] by (simp add: n last_frame_first_def)
  next
    case False
    then have rest: "concat fs \<noteq> []" using fs by (rule concat_frames_nonempty [rotated])
    have tail: "decode_danmu L m (concat fs) st = (Returned, last_frame_first L fs st)"
      using fs False m by (rule Cons.IH)
    from f have w: "whole_frame f" by (simp add: uncompressed_frame_def)
    show ?thesis
      using decode_head_frame [OF w rest, of L m st] decode_uncompressed_alone [OF f]
      by (simp add: n tail last_frame_first_def)
  qed
qed

section \<open>Frames built by \<open>mk_frame\<close>\<close>

lemma unat_byte: "unat (of_nat k :: 8 word) = k mod 256"
  by (simp add: unat_of_nat)

lemma int_hex_be32:
  assumes "n < 4294967296"
  shows "int_hex (be32 n) = Inr n"
proof -
  have d2: "n div 65536 = n div 256 div 256"
    by (simp add: div_mult2_eq [symmetric])
  have d3: "n div 16777216 = n div 256 div 256 div 256"
    by (simp add: div_mult2_eq [symmetric])
  have top: "n div 256 div 256 div 256 < 256"
    using assms by (simp add: div_mult2_eq [symmetric] less_mult_imp_div_less)
  have "((n div 256 div 256 div 256 mod 256 * 256 + n div 256 div 256 mod 256) * 256
           + n div 256 mod 256) * 256 + n mod 256 = n"
    using top by simp
  then show ?thesis
    by (simp add: int_hex_def be32_def unat_byte d2 d3)
qed

lemma int_hex_be16: "n < 65536 \<Longrightarrow> int_hex (be16 n) = Inr n"
  unfolding int_hex_def be16_def by (simp add: unat_byte)

lemma length_be [simp]: "length (be32 n) = 4" "length (be16 n) = 2"
  by (simp_all add: be32_def be16_def)

lemma mk_frame_parts:
  "take 4 (mk_frame v op p) = be32 (16 + length p)"
  "take 2 (drop 6 (mk_frame v op p)) = be16 v"
  "take 4 (drop 8 (mk_frame v op p)) = be32 op"
  "drop 16 (mk_frame v op p) = p"
  "length (mk_frame v op p) = 16 + length p"
  by (simp_all add: mk_frame_def)

lemma whole_frame_mk_frame: "length p < 4294967280 \<Longrightarrow> whole_frame (mk_frame v op p)"
  by (simp add: whole_frame_def mk_frame_parts int_hex_be32)

lemma frame_ver_mk_frame: "v < 65536 \<Longrightarrow> frame_ver (mk_frame v op p) = Inr v"
  by (simp add: frame_ver_def mk_frame_parts int_hex_be16)

lemma frame_op_mk_frame: "op < 4294967296 \<Longrightarrow> frame_op (mk_frame v op p) = Inr op"
  by (simp add: frame_op_def mk_frame_parts int_hex_be32)

section \<open>Exceptions, and what stays in the list\<close>

lemma decode_danmu_raise1:
  "int_hex (take 4 data) = Inl e \<Longrightarrow> decode_danmu L (Suc n) data st = (Raised e, st)"
  by (simp add: decode_danmu.simps(2))

lemma decode_danmu_raise2:
  "int_hex (take 4 data) = Inr pl \<Longrightarrow> int_hex (take 2 (drop 6 data)) = Inl e
   \<Longrightarrow> decode_danmu L (Suc n) data st = (Raised e, st)"
  by (simp add: decode_danmu.simps(2))

lemma decode_danmu_raise3:
  "int_hex (take 4 data) = Inr pl \<Longrightarrow> int_hex (take 2 (drop 6 data)) = Inr ver
   \<Longrightarrow> int_hex (take 4 (drop 8 data)) = Inl e
   \<Longrightarrow> decode_danmu L (Suc n) data st = (Raised e, st)"
  by (simp add: decode_danmu.simps(2))

lemma short_buffer_raises:
  assumes "length data < 9"
  shows "decode_danmu L (Suc n) data st = (Raised ValueError, st)"
proof (cases "data = []")
  case True
  then show ?thesis by (simp add: decode_danmu_raise1)
next
  case False
  then obtain pl where pl: "int_hex (take 4 data) = Inr pl"
    using int_hex_nonempty [of "take 4 data"] by auto
  show ?thesis
  proof (cases "length data \<le> 6")
    case True
    then have "int_hex (take 2 (drop 6 data)) = Inl ValueError" by simp
    with pl show ?thesis by (rule decode_danmu_raise2)
  next
    case False
    then obtain ver where ver: "int_hex (take 2 (drop 6 data)) = Inr ver"
      using int_hex_nonempty [of "take 2 (drop 6 data)"] by auto
    from assms have "int_hex (take 4 (drop 8 data)) = Inl ValueError" by simp
    with pl ver show ?thesis by (rule decode_danmu_raise3)
  qed
qed

lemma zero_length_recursion:
  assumes "9 \<le> length data" and "int_hex (take 4 data) = Inr 0"
  shows "decode_danmu L n data st = (Raised RecursionError, st)"
proof (induction n)
  case 0
  show ?case by simp
next
  case (Suc n)
  from assms(1) obtain pl ver op where h: "int_hex (take 4 data) = Inr pl"
    "int_hex (take 2 (drop 6 data)) = Inr ver" "int_hex (take 4 (drop 8 data)) = Inr op"
    by (rule header_readable)
  from assms(1) have "0 < length data" by linarith
  then show ?case
    by (subst decode_danmu_header [OF assms(2) h(2) h(3)]) (simp add: Suc.IH)
qed

lemma one_append_raise [simp]: "one_append st (Inl e)"
  by (simp add: one_append_def)

lemma one_append_same [simp]: "one_append st (Inr st)"
  by (simp add: one_append_def)

lemma one_append_append [simp]: "one_append st (Inr (append_danmu c st))"
  unfolding one_append_def by blast

lemma one_append_bindE: "(\<And>x. one_append st (f x)) \<Longrightarrow> one_append st (bindE m f)"
  by (cases m) (simp_all add: bindE_def)

lemma one_append_if: "one_append st a \<Longrightarrow> one_append st b \<Longrightarrow> one_append st (if c then a else b)"
  by simp

lemma on_danmu_msg_one_append: "one_append st (on_danmu_msg L user text st)"
  unfolding on_danmu_msg_def
  by (auto split: pyval.splits option.splits intro!: one_append_bindE)

lemma on_business_one_append: "one_append st (on_business L jd st)"
  unfolding on_business_def
  by (intro one_append_bindE one_append_if one_append_same one_append_append
      on_danmu_msg_one_append)

lemma on_op5_cases:
  "on_op5 L p st = st \<or> (\<exists>c. on_op5 L p st = append_danmu c st)"
proof -
  have "one_append st (bindE (json_loads L (utf8_decode_ignore L p)) (\<lambda>jd. on_business L jd st))"
    by (intro one_append_bindE on_business_one_append)
  then show ?thesis
    unfolding one_append_def on_op5_def by (elim disjE exE) (auto split: sum.splits)
qed

lemma on_op5_keeps:
  "prefix (danmu_list st) (danmu_list (on_op5 L p st)) \<and> room_id (on_op5 L p st) = room_id st"
  using on_op5_cases [of L p st] by (auto simp: append_danmu_def)

lemma decode_danmu_keeps:
  "prefix (danmu_list st) (danmu_list (snd (decode_danmu L n data st)))
   \<and> room_id (snd (decode_danmu L n data st)) = room_id st"
proof (induction n arbitrary: data st)
  case 0
  show ?case by simp
next
  case (Suc n)
  show ?case
  proof (cases "9 \<le> length data")
    case False
    then show ?thesis by (simp add: short_buffer_raises)
  next
    case True
    then obtain pl ver op where h: "int_hex (take 4 data) = Inr pl"
      "int_hex (take 2 (drop 6 data)) = Inr ver" "int_hex (take 4 (drop 8 data)) = Inr op"
      by (rule header_readable)
    define r where "r = (if length data > pl then decode_danmu L n (drop pl data) st else (Returned, st))"
    have r: "prefix (danmu_list st) (danmu_list (snd r)) \<and> room_id (snd r) = room_id st"
      using Suc.IH [of st "drop pl data"] by (simp add: r_def)
    obtain o1 s1 where rs: "r = (o1, s1)" by (cases r)
    with r have s1: "prefix (danmu_list st) (danmu_list s1)" "room_id s1 = room_id st" by simp_all
    have step: "decode_danmu L (Suc n) data st =
      (case o1 of Raised e \<Rightarrow> (Raised e, s1)
       | Returned \<Rightarrow>
          (let data1 = (if length data > pl then take pl data else data) in
           if ver = 2 then
             (case zlib_decompress L (drop 16 data1) of
                Inl e \<Rightarrow> (Raised e, s1)
              | Inr data2 \<Rightarrow> decode_danmu L n data2 s1)
           else if ver = 1 then (Returned, s1)
           else if op = 5 then (Returned, on_op5 L (drop 16 data1) s1)
           else (Returned, s1)))"
      unfolding decode_danmu_header [OF h] r_def [symmetric] rs by simp
    have keep: "prefix (danmu_list s1) (danmu_list s2) \<and> room_id s2 = room_id s1
      \<Longrightarrow> prefix (danmu_list st) (danmu_list s2) \<and> room_id s2 = room_id st" for s2
      using s1 by (auto intro: prefix_order.trans)
    show ?thesis
      unfolding step
      using s1 keep [OF Suc.IH [of s1]] keep [OF on_op5_keeps [of s1]]
      by (auto simp: Let_def split: outcome.splits sum.splits)
  qed
qed

lemma raising_tail_skips_head:
  assumes "whole_frame f" and "rest \<noteq> []" and "decode_danmu L n rest st = (Raised e, s1)"
  shows "decode_danmu L (Suc n) (f @ rest) st = (Raised e, s1)"
  using decode_head_frame [OF assms(1,2), of L n st] assms(3) by simp

lemma decode_compressed_alone:
  assumes "compressed_frame f"
  shows "decode_danmu L (Suc n) f st =
           (case zlib_decompress L (drop 16 f) of
              Inl e \<Rightarrow> (Raised e, st)
            | Inr data2 \<Rightarrow> decode_danmu L n data2 st)"
proof -
  from assms have len: "16 \<le> length f" and pl: "int_hex (take 4 f) = Inr (length f)"
    and v: "int_hex (take 2 (drop 6 f)) = Inr 2"
    by (simp_all add: compressed_frame_def whole_frame_def frame_ver_def)
  from len have "9 \<le> length f" by simp
  then obtain pl' ver op where h: "int_hex (take 4 f) = Inr pl'"
    "int_hex (take 2 (drop 6 f)) = Inr ver" "int_hex (take 4 (drop 8 f)) = Inr op"
    by (rule header_readable)
  show ?thesis
    by (subst decode_danmu_header [OF pl v h(3)]) simp
qed

lemma recv_danmu_raised:
  "decode_danmu L n m st = (Raised e, s1) \<Longrightarrow> recv_danmu L n (m # msgs) st = (Raised e, s1)"
  by simp

lemma recv_danmu_returned:
  "decode_danmu L n m st = (Returned, s1) \<Longrightarrow> recv_danmu L n (m # msgs) st = recv_danmu L n msgs s1"
  by simp

section \<open>The patterns on cell references and level words\<close>

lemmas rx_defs = rx_match3_def rx_match1_def rx_bangs_def rx_letter_def rx_digits_def
  rx_level_def rx_alt_def rx_seq_def rx_opt_def rx_class_def rx_lit_def fullwidth_bang_def
  is_lower_def is_upper_def is_digit_def decimal_def column_of_def py_int_def lower_char_def
  upper_char_def operation_of_def

lemma letter_facts:
  assumes "is_lower c \<or> is_upper c"
  shows "c \<noteq> 33" "c \<noteq> fullwidth_bang" "\<not> is_digit L c" "33 \<noteq> c" "fullwidth_bang \<noteq> c"
  using assms by (auto simp: is_lower_def is_upper_def fullwidth_bang_def is_digit_def decimal_def)

lemma digit_facts:
  assumes "ascii_digit d"
  shows "d \<noteq> 33" "d \<noteq> fullwidth_bang" "is_digit L d" "\<not> is_lower d" "\<not> is_upper d"
    "33 \<noteq> d" "fullwidth_bang \<noteq> d" "decimal L d = Some (d - 48)"
  using assms by (auto simp: ascii_digit_def is_lower_def is_upper_def fullwidth_bang_def is_digit_def decimal_def)

lemma bang_facts: "\<not> is_digit L 33" "\<not> is_digit L fullwidth_bang" "\<not> is_lower 33" "\<not> is_upper 33" "\<not> is_lower fullwidth_bang"
  "\<not> is_upper fullwidth_bang" "fullwidth_bang \<noteq> 33" "33 \<noteq> fullwidth_bang"
  by (auto simp: is_lower_def is_upper_def fullwidth_bang_def is_digit_def decimal_def)

lemmas rx_core = rx_match3_def rx_bangs_def rx_letter_def rx_digits_def
  rx_alt_def rx_seq_def rx_opt_def rx_class_def

lemma markers_cases:
  assumes "m \<in> set markers"
  obtains "m = []" | "m = [33]" | "m = [fullwidth_bang]" | "m = [33, 33]"
    | "m = [fullwidth_bang, fullwidth_bang]"
  using assms by (auto simp: markers_def)

lemma match_letter_digit:
  assumes "m \<in> set markers" and "is_lower c \<or> is_upper c" and "ascii_digit d"
    and "t = [] \<or> \<not> is_digit L (hd t)"
  shows "rx_match3 rx_bangs rx_letter (rx_digits L) (m @ c # d # t) = Some (m, [c], [d])"
proof (cases t)
  case Nil
  from assms(1) show ?thesis
    using assms(2)
    by (cases rule: markers_cases)
      (auto simp add: rx_core Nil letter_facts [OF assms(2)] digit_facts [OF assms(3)] bang_facts)
next
  case (Cons x xs)
  with assms(4) have x: "\<not> is_digit L x" by simp
  from assms(1) show ?thesis
    using assms(2)
    by (cases rule: markers_cases)
      (auto simp add: rx_core Cons x letter_facts [OF assms(2)] digit_facts [OF assms(3)] bang_facts)
qed

lemma match_letter_digits:
  assumes "m \<in> set markers" and "is_lower c \<or> is_upper c" and "ascii_digit d" and "ascii_digit e"
  shows "rx_match3 rx_bangs rx_letter (rx_digits L) (m @ c # d # e # t) = Some (m, [c], [d, e])"
  using assms(1,2)
  by (cases rule: markers_cases)
    (auto simp add: rx_core letter_facts [OF assms(2)] digit_facts [OF assms(3)]
      digit_facts [OF assms(4)] bang_facts)

lemma no_match_digit_first:
  assumes "m \<in> set markers" and "ascii_digit d"
  shows "rx_match3 rx_bangs rx_letter g3 (m @ d # t) = None"
  using assms(1,2)
  by (cases rule: markers_cases)
    (auto simp add: rx_core digit_facts [OF assms(2)] bang_facts)

lemma match_digit_letter:
  assumes "m \<in> set markers" and "is_lower c \<or> is_upper c" and "ascii_digit d"
  shows "rx_match3 rx_bangs (rx_digits L) rx_letter (m @ d # c # t) = Some (m, [d], [c])"
  using assms(1,2)
  by (cases rule: markers_cases)
    (auto simp add: rx_core letter_facts [OF assms(2)] digit_facts [OF assms(3)] bang_facts)

lemma match_digits_letter:
  assumes "m \<in> set markers" and "is_lower c \<or> is_upper c" and "ascii_digit d" and "ascii_digit e"
  shows "rx_match3 rx_bangs (rx_digits L) rx_letter (m @ d # e # c # t) = Some (m, [d, e], [c])"
  using assms(1,2)
  by (cases rule: markers_cases)
    (auto simp add: rx_core letter_facts [OF assms(2)] digit_facts [OF assms(3)]
      digit_facts [OF assms(4)] bang_facts)

lemma operation_of_markers: "m \<in> set markers \<Longrightarrow> operation_of m = marker_operation m"
  by (auto simp: markers_def operation_of_def marker_operation_def fullwidth_bang_def)

lemma letter_text_letter:
  assumes "l < 26"
  shows "\<exists>c. letter_text up l = [c] \<and> (is_lower c \<or> is_upper c)
            \<and> column_of [c] = Inr (int l)"
  using assms
  by (cases up) (auto simp: letter_text_def is_lower_def is_upper_def column_of_def lower_char_def)

lemma number_text_digits:
  assumes "r < 100"
  shows "(r < 10 \<and> (\<exists>d. number_text r = [d] \<and> ascii_digit d \<and> py_int L [d] = Inr (int r)))
       \<or> (10 \<le> r \<and> (\<exists>d e. number_text r = [d, e] \<and> ascii_digit d \<and> ascii_digit e
              \<and> py_int L [d, e] = Inr (int r)))"
proof (cases "r < 10")
  case True
  then show ?thesis
    by (simp add: number_text_def ascii_digit_def py_int_def decimal_def)
next
  case False
  with assms have d: "1 \<le> r div 10" "r div 10 \<le> 9" "r mod 10 \<le> 9" by simp_all
  have "10 * (r div 10) + r mod 10 = r" by simp
  with False d show ?thesis
    by (simp add: number_text_def ascii_digit_def py_int_def decimal_def)
qed

lemma classify_letter_first:
  assumes "m \<in> set markers" and "l < 26" and "r < 100"
    and "10 \<le> r \<or> t = [] \<or> \<not> is_digit L (hd t)"
  shows "on_danmu_msg L user (PStr (m @ letter_text up l @ number_text r @ t)) st
         = Inr (append_danmu (user, marker_operation m, Cell (int l) (int r)) st)"
proof -
  from letter_text_letter [OF assms(2), of up] obtain c where
    c: "letter_text up l = [c]" "is_lower c \<or> is_upper c" "column_of [c] = Inr (int l)"
    by blast
  from number_text_digits [OF assms(3), of L] show ?thesis
  proof (elim disjE conjE exE)
    fix d assume r: "r < 10" "number_text r = [d]" "ascii_digit d" "py_int L [d] = Inr (int r)"
    with assms(4) have t: "t = [] \<or> \<not> is_digit L (hd t)" by simp
    show ?thesis
      using match_letter_digit [OF assms(1) c(2) r(3) t]
      by (simp add: on_danmu_msg_def c r bindE_def operation_of_markers [OF assms(1)])
  next
    fix d e assume r: "10 \<le> r" "number_text r = [d, e]" "ascii_digit d" "ascii_digit e"
      "py_int L [d, e] = Inr (int r)"
    show ?thesis
      using match_letter_digits [OF assms(1) c(2) r(3,4), of L t]
      by (simp add: on_danmu_msg_def c r bindE_def operation_of_markers [OF assms(1)])
  qed
qed

lemma classify_digit_first:
  assumes "m \<in> set markers" and "l < 26" and "r < 100"
  shows "on_danmu_msg L user (PStr (m @ number_text r @ letter_text up l @ t)) st
         = Inr (append_danmu (user, marker_operation m, Cell (int l) (int r)) st)"
proof -
  from letter_text_letter [OF assms(2), of up] obtain c where
    c: "letter_text up l = [c]" "is_lower c \<or> is_upper c" "column_of [c] = Inr (int l)"
    by blast
  from number_text_digits [OF assms(3), of L] show ?thesis
  proof (elim disjE conjE exE)
    fix d assume r: "r < 10" "number_text r = [d]" "ascii_digit d" "py_int L [d] = Inr (int r)"
    show ?thesis
      using match_digit_letter [OF assms(1) c(2) r(3), of L t]
        no_match_digit_first [OF assms(1) r(3), of "rx_digits L" "c # t"]
      by (simp add: on_danmu_msg_def c r bindE_def operation_of_markers [OF assms(1)])
  next
    fix d e assume r: "10 \<le> r" "number_text r = [d, e]" "ascii_digit d" "ascii_digit e"
      "py_int L [d, e] = Inr (int r)"
    show ?thesis
      using match_digits_letter [OF assms(1) c(2) r(3,4), of L t]
        no_match_digit_first [OF assms(1) r(3), of "rx_digits L" "e # c # t"]
      by (simp add: on_danmu_msg_def c r bindE_def operation_of_markers [OF assms(1)])
  qed
qed

text \<open>
  The first group of the patterns is two ASCII marks at most or two full-width marks at
  most: a pair of one of each is no marker prefix, and such a text matches nothing.
\<close>

lemma mixed_markers_no_command:
  assumes "l < 26" and "r < 100"
  shows "on_danmu_msg L user (PStr ([33, fullwidth_bang] @ letter_text up l @ number_text r)) st = Inr st"
    and "on_danmu_msg L user (PStr ([fullwidth_bang, 33] @ letter_text up l @ number_text r)) st = Inr st"
proof -
  from letter_text_letter [OF assms(1), of up] obtain c where
    c: "letter_text up l = [c]" "is_lower c \<or> is_upper c" by blast
  note lf = letter_facts [OF c(2)]
  show "on_danmu_msg L user (PStr ([33, fullwidth_bang] @ letter_text up l @ number_text r)) st = Inr st"
    using c(2)
    by (auto simp add: on_danmu_msg_def c rx_core rx_match1_def rx_level_def rx_lit_def lf bang_facts ascii_def)
  show "on_danmu_msg L user (PStr ([fullwidth_bang, 33] @ letter_text up l @ number_text r)) st = Inr st"
    using c(2)
    by (auto simp add: on_danmu_msg_def c rx_core rx_match1_def rx_level_def rx_lit_def lf bang_facts ascii_def)
qed

lemma level_words:
  "on_danmu_msg L user (PStr (ascii ''easy'' @ t)) st
     = Inr (append_danmu (user, ''difficulty'', Str (ascii ''EASY'')) st)"
  "on_danmu_msg L user (PStr (ascii ''normal'' @ t)) st
     = Inr (append_danmu (user, ''difficulty'', Str (ascii ''NORMAL'')) st)"
  "on_danmu_msg L user (PStr (ascii ''EASY'' @ t)) st
     = Inr (append_danmu (user, ''difficulty'', Str (ascii ''EASY'')) st)"
  "on_danmu_msg L user (PStr (ascii ''NORMAL'' @ t)) st
     = Inr (append_danmu (user, ''difficulty'', Str (ascii ''NORMAL'')) st)"
  by (simp_all add: on_danmu_msg_def rx_defs ascii_def)

section \<open>Sample frames\<close>

lemma decode_business_frame:
  assumes "business_frame f"
  shows "decode_danmu L (Suc n) f st = (Returned, on_op5 L (drop 16 f) st)"
proof -
  from assms have len: "16 \<le> length f" and pl: "int_hex (take 4 f) = Inr (length f)"
    and v: "int_hex (take 2 (drop 6 f)) \<noteq> Inr 2" "int_hex (take 2 (drop 6 f)) \<noteq> Inr 1"
    and op: "int_hex (take 4 (drop 8 f)) = Inr 5"
    by (simp_all add: business_frame_def opcode5_frame_def uncompressed_frame_def
        whole_frame_def frame_ver_def frame_op_def)
  from len have "9 \<le> length f" by simp
  then obtain pl' ver op' where h: "int_hex (take 4 f) = Inr pl'"
    "int_hex (take 2 (drop 6 f)) = Inr ver" "int_hex (take 4 (drop 8 f)) = Inr op'"
    by (rule header_readable)
  from v h have v2: "ver \<noteq> 2" "ver \<noteq> 1" by simp_all
  show ?thesis
    using v2 by (subst decode_danmu_header [where pl = "length f" and ver = ver and op = 5])
      (simp_all add: pl h(2) op)
qed

lemma frame_alone_business:
  "business_frame f \<Longrightarrow> frame_alone L f st = on_op5 L (drop 16 f) st"
  by (simp add: frame_alone_def decode_business_frame)

lemma sample_utf8_ascii:
  "\<forall>c\<in>set s. (of_char c :: nat) < 128 \<Longrightarrow> sample_utf8 (ascii_bytes s) = ascii s"
proof (induction s)
  case Nil
  then show ?case by (simp add: sample_utf8_def ascii_bytes_def ascii_def)
next
  case (Cons c s)
  then have c: "(of_char c :: nat) < 128" by simp
  then have lt: "(of_nat (of_char c) :: 8 word) < 128"
    by (simp add: word_less_nat_alt unat_byte)
  from c have "unat (of_nat (of_char c) :: 8 word) = of_char c"
    by (simp add: unat_byte)
  with Cons lt show ?case
    by (simp add: sample_utf8_def ascii_bytes_def ascii_def)
qed

lemma mk_frame_business:
  "length p < 4294967280 \<Longrightarrow> business_frame (mk_frame 0 5 p)"
  by (simp add: business_frame_def opcode5_frame_def uncompressed_frame_def
      whole_frame_mk_frame frame_ver_mk_frame frame_op_mk_frame)

lemma sample_frames_business:
  "business_frame frame_a" "business_frame frame_b" "business_frame frame_gift"
  "business_frame frame_flower" "business_frame frame_guard" "business_frame frame_cut"
  "business_frame frame_nodata" "business_frame frame_notice"
  by (simp_all add: frame_a_def frame_b_def frame_gift_def frame_flower_def frame_guard_def
      frame_cut_def frame_nodata_def frame_notice_def mk_frame_business ascii_bytes_def
      text_a_def text_b_def text_gift_def text_flower_def text_guard_def text_cut_def
      text_nodata_def text_notice_def)

lemma sample_texts_ascii:
  "\<forall>c\<in>set text_a. (of_char c :: nat) < 128" "\<forall>c\<in>set text_b. (of_char c :: nat) < 128"
  "\<forall>c\<in>set text_gift. (of_char c :: nat) < 128" "\<forall>c\<in>set text_flower. (of_char c :: nat) < 128"
  "\<forall>c\<in>set text_guard. (of_char c :: nat) < 128" "\<forall>c\<in>set text_cut. (of_char c :: nat) < 128"
  "\<forall>c\<in>set text_nodata. (of_char c :: nat) < 128" "\<forall>c\<in>set text_notice. (of_char c :: nat) < 128"
  by (simp_all add: text_a_def text_b_def text_gift_def text_flower_def text_guard_def
      text_cut_def text_nodata_def text_notice_def)

lemma sample_frame_text:
  "\<forall>c\<in>set s. (of_char c :: nat) < 128 \<Longrightarrow>
   frame_json sample_libs (mk_frame v op (ascii_bytes s)) = sample_json_loads (ascii s)"
  by (simp add: frame_json_def mk_frame_parts sample_libs_def sample_utf8_ascii)

lemmas sample_texts = text_a_def text_b_def text_gift_def text_flower_def text_guard_def
      text_cut_def text_nodata_def text_notice_def

lemma json_frame_a:
  "frame_json sample_libs frame_a =
     Inr (PDict [(ascii ''cmd'', PStr (ascii ''DANMU_MSG'')),
                 (ascii ''info'', PList [PInt 0, PStr (ascii ''A1''),
                                         PList [PInt 7, PStr (ascii ''ann'')]])])"
  unfolding frame_a_def sample_frame_text [OF sample_texts_ascii(1)]
  by (simp add: sample_json_loads_def)

lemma json_frame_b:
  "frame_json sample_libs frame_b =
     Inr (PDict [(ascii ''cmd'', PStr (ascii ''DANMU_MSG'')),
                    (ascii ''info'', PList [PInt 0, PStr (ascii ''!b2''),
                                            PList [PInt 8, PStr (ascii ''bob'')]])])"
  unfolding frame_b_def sample_frame_text [OF sample_texts_ascii(2)]
  by (simp add: sample_json_loads_def ascii_def sample_texts)

lemma json_frame_notice:
  "frame_json sample_libs frame_notice =  Inr (PDict [(ascii ''cmd'', PStr (ascii ''NOTICE_MSG''))])"
  unfolding frame_notice_def sample_frame_text [OF sample_texts_ascii(8)]
  by (simp add: sample_json_loads_def ascii_def sample_texts)

lemma json_frame_cut:
  "frame_json sample_libs frame_cut =  Inl JSONDecodeError"
  unfolding frame_cut_def sample_frame_text [OF sample_texts_ascii(6)]
  by (simp add: sample_json_loads_def ascii_def sample_texts)


lemma on_op5_frame_json:
  "on_op5 L (drop 16 f) st =
     (case bindE (frame_json L f) (\<lambda>jd. on_business L jd st) of Inl e \<Rightarrow> st | Inr st' \<Rightarrow> st')"
  by (simp add: on_op5_def frame_json_def)

lemma frame_alone_a: "frame_alone sample_libs frame_a st = append_danmu cmd_a st"
  unfolding frame_alone_business [OF sample_frames_business(1)] on_op5_frame_json json_frame_a
  by (simp add: bindE_def on_business_def on_danmu_msg_def rx_defs ascii_def cmd_a_def)

lemma frame_alone_b: "frame_alone sample_libs frame_b st = append_danmu cmd_b st"
  unfolding frame_alone_business [OF sample_frames_business(2)] on_op5_frame_json json_frame_b
  by (simp add: bindE_def on_business_def on_danmu_msg_def rx_defs ascii_def cmd_b_def)

lemma business_uncompressed: "business_frame f \<Longrightarrow> uncompressed_frame f"
  by (simp add: business_frame_def opcode5_frame_def)

lemma cmd_names_distinct:
  "ascii ''SEND_GIFT'' \<noteq> ascii ''GUARD_BUY''" "ascii ''SEND_GIFT'' \<noteq> ascii ''DANMU_MSG''"
  "ascii ''GUARD_BUY'' \<noteq> ascii ''DANMU_MSG''" "ascii ''GUARD_BUY'' \<noteq> ascii ''SEND_GIFT''"
  "ascii ''DANMU_MSG'' \<noteq> ascii ''SEND_GIFT''" "ascii ''DANMU_MSG'' \<noteq> ascii ''GUARD_BUY''"
  by (simp_all add: ascii_def)

lemma on_business_no_cmd:
  "getitem_str jd (ascii ''cmd'') = Inl e \<Longrightarrow> on_business L jd st = Inl e"
  by (simp add: on_business_def bindE_def)

lemma on_business_send_gift:
  assumes "getitem_str jd (ascii ''cmd'') = Inr (PStr (ascii ''SEND_GIFT''))"
  shows "on_business L jd st =
     bindE (getitem_str jd (ascii ''data'')) (\<lambda>d.
     bindE (getitem_str d (ascii ''uname'')) (\<lambda>uname.
     bindE (getitem_str d (ascii ''num'')) (\<lambda>num.
     bindE (getitem_str d (ascii ''giftName'')) (\<lambda>giftName.
       if giftName = PStr gift_name
       then Inr (append_danmu (uname, ''gift'', Str []) st)
       else Inr st))))"
  unfolding on_business_def assms by (simp add: bindE_def)

lemma on_business_guard_buy:
  assumes "getitem_str jd (ascii ''cmd'') = Inr (PStr (ascii ''GUARD_BUY''))"
  shows "on_business L jd st =
     bindE (getitem_str jd (ascii ''data'')) (\<lambda>d.
     bindE (getitem_str d (ascii ''username'')) (\<lambda>username.
       Inr (append_danmu (username, ''gift'', Str []) st)))"
  unfolding on_business_def assms by (simp add: bindE_def cmd_names_distinct)

lemma on_business_danmu_msg:
  assumes "getitem_str jd (ascii ''cmd'') = Inr (PStr (ascii ''DANMU_MSG''))"
  shows "on_business L jd st =
     bindE (getitem_str jd (ascii ''info'')) (\<lambda>i0.
     bindE (getitem_int i0 2) (\<lambda>i2.
     bindE (getitem_int i2 1) (\<lambda>user.
     bindE (getitem_str jd (ascii ''info'')) (\<lambda>i1.
     bindE (getitem_int i1 1) (\<lambda>text.
       on_danmu_msg L user text st)))))"
  unfolding on_business_def assms by (simp add: bindE_def cmd_names_distinct)

lemma lacks_keys_raises:
  assumes "lacks_keys jd"
  shows "isl (on_business L jd st)"
proof (cases "getitem_str jd (ascii ''cmd'')")
  case (Inl e)
  then show ?thesis by (simp add: on_business_no_cmd)
next
  case c: (Inr c)
  consider (gift) "c = PStr (ascii ''SEND_GIFT'')" | (guard) "c = PStr (ascii ''GUARD_BUY'')"
    | (msg) "c = PStr (ascii ''DANMU_MSG'')"
    | (other) "c \<noteq> PStr (ascii ''SEND_GIFT'')" "c \<noteq> PStr (ascii ''GUARD_BUY'')"
        "c \<noteq> PStr (ascii ''DANMU_MSG'')"
    by blast
  then show ?thesis
  proof cases
    case gift
    from assms have "case getitem_str jd (ascii ''data'') of
               Inl e \<Rightarrow> True
             | Inr d \<Rightarrow> isl (getitem_str d (ascii ''uname'')) \<or> isl (getitem_str d (ascii ''num''))
                        \<or> isl (getitem_str d (ascii ''giftName''))"
      by (simp add: lacks_keys_def c gift)
    then show ?thesis
      unfolding on_business_send_gift [OF c [unfolded gift]]
      by (auto simp: bindE_def split: sum.splits)
  next
    case guard
    from assms have "case getitem_str jd (ascii ''data'') of
               Inl e \<Rightarrow> True
             | Inr d \<Rightarrow> isl (getitem_str d (ascii ''username''))"
      by (simp add: lacks_keys_def c guard cmd_names_distinct)
    then show ?thesis
      unfolding on_business_guard_buy [OF c [unfolded guard]]
      by (auto simp: bindE_def split: sum.splits)
  next
    case msg
    from assms have "case getitem_str jd (ascii ''info'') of
               Inl e \<Rightarrow> True
             | Inr i \<Rightarrow> isl (getitem_int i 1) \<or>
                        (case getitem_int i 2 of Inl e \<Rightarrow> True | Inr i2 \<Rightarrow> isl (getitem_int i2 1))"
      by (simp add: lacks_keys_def c msg cmd_names_distinct)
    then show ?thesis
      unfolding on_business_danmu_msg [OF c [unfolded msg]]
      by (auto simp: bindE_def split: sum.splits)
  next
    case other
    with assms show ?thesis by (simp add: lacks_keys_def c)
  qed
qed

lemma cmd_unrecognized_ignored:
  assumes "cmd_unrecognized jd"
  shows "on_business L jd st = Inr st"
proof -
  from assms obtain c where c: "getitem_str jd (ascii ''cmd'') = Inr c"
    and n: "c \<noteq> PStr (ascii ''SEND_GIFT'')" "c \<noteq> PStr (ascii ''GUARD_BUY'')"
      "c \<noteq> PStr (ascii ''DANMU_MSG'')"
    by (cases "getitem_str jd (ascii ''cmd'')")
      (simp_all add: cmd_unrecognized_def cmd_recognized_def)
  show ?thesis
    unfolding on_business_def c bindE_def using n by simp
qed

lemma decode_opcode5_frame:
  assumes "opcode5_frame f"
  shows "decode_danmu L (Suc n) f st =
           (Returned, if frame_ver f = Inr 1 then st else on_op5 L (drop 16 f) st)"
proof (cases "frame_ver f = Inr 1")
  case False
  with assms have "business_frame f" by (simp add: business_frame_def)
  then show ?thesis using False by (simp add: decode_business_frame)
next
  case True
  from assms have len: "16 \<le> length f" and pl: "int_hex (take 4 f) = Inr (length f)"
    by (simp_all add: opcode5_frame_def uncompressed_frame_def whole_frame_def)
  from len have "9 \<le> length f" by simp
  then obtain pl' ver op where h: "int_hex (take 4 f) = Inr pl'"
    "int_hex (take 2 (drop 6 f)) = Inr ver" "int_hex (take 4 (drop 8 f)) = Inr op"
    by (rule header_readable)
  from True h(2) have "ver = 1" by (simp add: frame_ver_def)
  then show ?thesis
    using True by (subst decode_danmu_header [OF pl h(2) h(3)]) simp
qed

lemma business_opcode5: "business_frame f \<Longrightarrow> opcode5_frame f"
  by (simp add: business_frame_def)

lemma decode_business_json:
  assumes "business_frame f" and "frame_json L f = Inr jd"
  shows "decode_danmu L (Suc n) f st =
           (Returned, case on_business L jd st of Inl e \<Rightarrow> st | Inr st' \<Rightarrow> st')"
  by (simp add: decode_business_frame [OF assms(1)] on_op5_frame_json assms(2) bindE_def)

lemma json_frame_nodata:
  "frame_json sample_libs frame_nodata = Inr (PDict [(ascii ''cmd'', PStr (ascii ''SEND_GIFT''))])"
  unfolding frame_nodata_def sample_frame_text [OF sample_texts_ascii(7)]
  by (simp add: sample_json_loads_def ascii_def sample_texts)

lemma json_frame_gift:
  "frame_json sample_libs frame_gift =
     Inr (PDict [(ascii ''cmd'', PStr (ascii ''SEND_GIFT'')),
                 (ascii ''data'', PDict [(ascii ''uname'', PStr (ascii ''ann'')),
                                         (ascii ''num'', PInt 1),
                                         (ascii ''giftName'', PStr [21507, 29916])])])"
  unfolding frame_gift_def sample_frame_text [OF sample_texts_ascii(3)]
  by (simp add: sample_json_loads_def ascii_def sample_texts)

lemma json_frame_flower:
  "frame_json sample_libs frame_flower =
     Inr (PDict [(ascii ''cmd'', PStr (ascii ''SEND_GIFT'')),
                 (ascii ''data'', PDict [(ascii ''uname'', PStr (ascii ''ann'')),
                                         (ascii ''num'', PInt 1),
                                         (ascii ''giftName'', PStr (ascii ''flower''))])])"
  unfolding frame_flower_def sample_frame_text [OF sample_texts_ascii(4)]
  by (simp add: sample_json_loads_def ascii_def sample_texts)

lemma json_frame_guard:
  "frame_json sample_libs frame_guard =
     Inr (PDict [(ascii ''cmd'', PStr (ascii ''GUARD_BUY'')),
                 (ascii ''data'', PDict [(ascii ''username'', PStr (ascii ''bob''))])])"
  unfolding frame_guard_def sample_frame_text [OF sample_texts_ascii(5)]
  by (simp add: sample_json_loads_def ascii_def sample_texts)

lemma sample_frames_compressed: "compressed_frame frame_z" "compressed_frame frame_bad_z"
  by (simp_all add: compressed_frame_def frame_z_def frame_bad_z_def whole_frame_mk_frame
      frame_ver_mk_frame zlib_ab_def)

lemma sample_decompress_z:
  "zlib_decompress sample_libs (drop 16 frame_z) = Inr (concat [frame_a, frame_b])"
  by (simp add: frame_z_def mk_frame_parts sample_libs_def sample_decompress_def)

lemma sample_decompress_bad:
  "zlib_decompress sample_libs (drop 16 frame_bad_z) = Inl ZlibError"
  by (simp add: frame_bad_z_def mk_frame_parts sample_libs_def sample_decompress_def zlib_ab_def)

lemma sample_frames_uncompressed: "uncompressed_frame frame_a" "uncompressed_frame frame_b"
  by (simp_all add: business_uncompressed sample_frames_business)

lemma decode_frame_a:
  "decode_danmu sample_libs (Suc n) frame_a st = (Returned, append_danmu cmd_a st)"
  by (simp add: decode_uncompressed_alone sample_frames_uncompressed frame_alone_a)

lemma length_take8_frame_b: "length (take 8 frame_b) = 8"
  by (simp add: frame_b_def mk_frame_parts)

lemma zero_length_frame_header:
  "9 \<le> length zero_length_frame" "int_hex (take 4 zero_length_frame) = Inr 0"
  by (simp_all add: zero_length_frame_def int_hex_be32)

section \<open>The lock and the command list\<close>

lemma start_lock_inv: "lock_inv (start rid)"
  by (simp add: lock_inv_def start_def in_flight_def)

lemma step_lock_inv:
  assumes "lock_inv w" and "step e w = Some w'"
  shows "lock_inv w'"
proof (cases e)
  case (AppendAcquire c)
  with assms show ?thesis
    by (auto simp: lock_inv_def in_flight_def split: if_splits getter_pc.splits)
next
  case AppendDo
  with assms show ?thesis
    by (auto simp: lock_inv_def in_flight_def append_danmu_def
        split: appender_pc.splits getter_pc.splits)
next
  case AppendRelease
  with assms show ?thesis
    by (auto simp: lock_inv_def in_flight_def split: if_splits getter_pc.splits)
next
  case GetAcquire
  with assms show ?thesis
    by (auto simp: lock_inv_def in_flight_def split: if_splits)
next
  case GetCopy
  with assms show ?thesis
    by (auto simp: lock_inv_def in_flight_def split: if_splits)
next
  case GetClear
  with assms show ?thesis
    by (auto simp: lock_inv_def in_flight_def split: getter_pc.splits)
next
  case GetRelease
  with assms show ?thesis
    by (auto simp: lock_inv_def in_flight_def split: getter_pc.splits)
qed

lemma run_schedule_lock_inv:
  "lock_inv w \<Longrightarrow> run_schedule es w = Some w' \<Longrightarrow> lock_inv w'"
proof (induction es arbitrary: w)
  case Nil
  then show ?case by simp
next
  case (Cons e es)
  then obtain w1 where s: "step e w = Some w1" and r: "run_schedule es w1 = Some w'"
    by (auto split: option.splits)
  from Cons.prems(1) s have "lock_inv w1" by (rule step_lock_inv)
  then show ?case using r by (rule Cons.IH)
qed

lemma get_danmu_list_steps:
  assumes "getter w = GIdle" and "\<not> lock_held w"
  shows "run_schedule [GetAcquire, GetCopy, GetClear, GetRelease] w
         = Some (w\<lparr>client := snd (get_danmu_list (client w)),
                   delivered := delivered w @ fst (get_danmu_list (client w))\<rparr>)"
  using assms by (simp add: get_danmu_list_def)

section \<open>Claims about the frames of a buffer\<close>

text \<open>
  C1, as amended. A buffer of \<open>N \<ge> 1\<close> structurally valid uncompressed frames, back to
  back, is decoded without an exception when the depth of calls allowed is at least
  \<open>N\<close>, and the result is that of decoding each of the \<open>N\<close> frames once, as a buffer of
  its own, the last frame of the buffer first: line 64 decodes the rest of the buffer
  before the frame at its head.
\<close>

theorem concatenated_frames_last_first:
  assumes "\<forall>f\<in>set fs. uncompressed_frame f" and "fs \<noteq> []" and "length fs \<le> n"
  shows "decode_danmu L n (concat fs) st = (Returned, last_frame_first L fs st)"
  using assms by (rule decode_concat_frames)

text \<open>
  The theorem at the two sample chat frames: the command of the second frame is in the
  list before the command of the first.
\<close>

theorem concatenated_frames_last_first_witness:
  "uncompressed_frame frame_a \<and> uncompressed_frame frame_b \<and>
   decode_danmu sample_libs 2 (concat [frame_a, frame_b]) st0
     = (Returned, last_frame_first sample_libs [frame_a, frame_b] st0) \<and>
   last_frame_first sample_libs [frame_a, frame_b] st0 = st0\<lparr>danmu_list := [cmd_b, cmd_a]\<rparr>"
proof -
  have u: "uncompressed_frame frame_a" "uncompressed_frame frame_b"
    by (simp_all add: business_uncompressed sample_frames_business)
  then have "\<forall>f\<in>set [frame_a, frame_b]. uncompressed_frame f" by simp
  from concatenated_frames_last_first [OF this, of 2 sample_libs st0]
  have "decode_danmu sample_libs 2 (concat [frame_a, frame_b]) st0
     = (Returned, last_frame_first sample_libs [frame_a, frame_b] st0)" by simp
  moreover have "last_frame_first sample_libs [frame_a, frame_b] st0
     = st0\<lparr>danmu_list := [cmd_b, cmd_a]\<rparr>"
    by (simp add: last_frame_first_def frame_alone_a frame_alone_b append_danmu_def st0_def)
  ultimately show ?thesis using u by simp
qed

text \<open>
  C1 as stated fails: \<open>frame_a\<close> alone gives \<open>cmd_a\<close> and \<open>frame_b\<close> alone gives \<open>cmd_b\<close>,
  so the order of the buffer is \<open>cmd_a\<close> before \<open>cmd_b\<close>; the buffer \<open>frame_a @ frame_b\<close>
  gives \<open>cmd_b\<close> before \<open>cmd_a\<close>.
\<close>

theorem buffer_order_counterexample:
  "uncompressed_frame frame_a \<and> uncompressed_frame frame_b \<and>
   decode_danmu sample_libs 2 frame_a st0 = (Returned, st0\<lparr>danmu_list := [cmd_a]\<rparr>) \<and>
   decode_danmu sample_libs 2 frame_b st0 = (Returned, st0\<lparr>danmu_list := [cmd_b]\<rparr>) \<and>
   first_frame_first sample_libs [frame_a, frame_b] st0 = st0\<lparr>danmu_list := [cmd_a, cmd_b]\<rparr> \<and>
   decode_danmu sample_libs 2 (frame_a @ frame_b) st0
     = (Returned, st0\<lparr>danmu_list := [cmd_b, cmd_a]\<rparr>) \<and>
   cmd_a \<noteq> cmd_b"
proof -
  have f: "first_frame_first sample_libs [frame_a, frame_b] st0
     = st0\<lparr>danmu_list := [cmd_a, cmd_b]\<rparr>"
    by (simp add: first_frame_first_def frame_alone_a frame_alone_b append_danmu_def st0_def)
  have u: "uncompressed_frame frame_a" "uncompressed_frame frame_b"
    by (simp_all add: business_uncompressed sample_frames_business)
  have a: "decode_danmu sample_libs 2 frame_a st0 = (Returned, st0\<lparr>danmu_list := [cmd_a]\<rparr>)"
    using decode_uncompressed_alone [OF u(1), of sample_libs 1 st0]
    by (simp add: frame_alone_a append_danmu_def st0_def numeral_2_eq_2)
  have b: "decode_danmu sample_libs 2 frame_b st0 = (Returned, st0\<lparr>danmu_list := [cmd_b]\<rparr>)"
    using decode_uncompressed_alone [OF u(2), of sample_libs 1 st0]
    by (simp add: frame_alone_b append_danmu_def st0_def numeral_2_eq_2)
  have "\<forall>f\<in>set [frame_a, frame_b]. uncompressed_frame f" using u by simp
  from decode_concat_frames [OF this, of 2 sample_libs st0]
  have ab: "decode_danmu sample_libs 2 (frame_a @ frame_b) st0
     = (Returned, st0\<lparr>danmu_list := [cmd_b, cmd_a]\<rparr>)"
    by (simp add: last_frame_first_def frame_alone_a frame_alone_b append_danmu_def st0_def)
  have "cmd_a \<noteq> cmd_b" by (simp add: cmd_a_def cmd_b_def)
  with u a b f ab show ?thesis by simp
qed

text \<open>
  C2, as amended. \<^verbatim>\<open>decode_danmu\<close> ends on every buffer, but it raises on truncated and
  malformed ones: a buffer of fewer than 9 bytes raises ValueError (one of the three
  reads of lines 59 to 61 is \<^verbatim>\<open>int('', 16)\<close>), and a length field of 0 makes the call of
  line 64 repeat on the same buffer until Python raises RecursionError. The rest of a
  buffer is decoded before the frame at its head, so when the rest raises, the whole
  frame before it is not handled at all. Whether the call returns or raises, the
  commands that were in the list, and those appended before the exception, stay: the
  list before is a prefix of the list after.
\<close>

theorem decode_raises_and_keeps_commands:
  "(length data < 9 \<longrightarrow> decode_danmu L (Suc n) data st = (Raised ValueError, st)) \<and>
   (9 \<le> length data \<and> int_hex (take 4 data) = Inr 0 \<longrightarrow>
      decode_danmu L n data st = (Raised RecursionError, st)) \<and>
   (whole_frame f \<and> rest \<noteq> [] \<and> decode_danmu L n rest st = (Raised e, s1) \<longrightarrow>
      decode_danmu L (Suc n) (f @ rest) st = (Raised e, s1)) \<and>
   prefix (danmu_list st) (danmu_list (snd (decode_danmu L n data st)))"
  using short_buffer_raises [of data L n st] zero_length_recursion [of data L n st]
    raising_tail_skips_head [of f rest L n st e s1] decode_danmu_keeps [of st L n data]
  by blast

text \<open>
  The theorem at a buffer of 8 bytes, at a header with length 0, and at a whole chat
  frame followed by 8 bytes of the next.
\<close>

theorem decode_raises_and_keeps_commands_witness:
  "length (take 8 frame_b) < 9 \<and>
   decode_danmu sample_libs 1000 (take 8 frame_b) st0 = (Raised ValueError, st0) \<and>
   9 \<le> length zero_length_frame \<and> int_hex (take 4 zero_length_frame) = Inr 0 \<and>
   decode_danmu sample_libs 1000 zero_length_frame st0 = (Raised RecursionError, st0) \<and>
   whole_frame frame_a \<and> take 8 frame_b \<noteq> [] \<and>
   decode_danmu sample_libs 1000 truncated_buffer st0 = (Raised ValueError, st0) \<and>
   prefix (danmu_list st0) (danmu_list (snd (decode_danmu sample_libs 1000 frame_a st0)))"
proof -
  have short: "length (take 8 frame_b) < 9" by (simp add: length_take8_frame_b)
  have ne: "take 8 frame_b \<noteq> []" using length_take8_frame_b by auto
  have w: "whole_frame frame_a"
    using sample_frames_uncompressed(1) by (simp add: uncompressed_frame_def)
  have s: "Suc 999 = 1000" "Suc 1000 = 1001" by simp_all
  from decode_raises_and_keeps_commands [of "take 8 frame_b" sample_libs 999 st0] short
  have a: "decode_danmu sample_libs 1000 (take 8 frame_b) st0 = (Raised ValueError, st0)"
    by (simp add: s)
  from decode_raises_and_keeps_commands [of zero_length_frame sample_libs 1000 st0]
    zero_length_frame_header
  have b: "decode_danmu sample_libs 1000 zero_length_frame st0 = (Raised RecursionError, st0)"
    by blast
  from decode_raises_and_keeps_commands [of "take 8 frame_b" sample_libs 998 st0] short
  have a': "decode_danmu sample_libs 999 (take 8 frame_b) st0 = (Raised ValueError, st0)"
    by simp
  from decode_raises_and_keeps_commands
    [of _ sample_libs 999 st0 frame_a "take 8 frame_b" ValueError st0] w ne a'
  have c: "decode_danmu sample_libs 1000 truncated_buffer st0 = (Raised ValueError, st0)"
    by (simp add: s truncated_buffer_def)
  from decode_raises_and_keeps_commands [of frame_a sample_libs 1000 st0]
  have d: "prefix (danmu_list st0) (danmu_list (snd (decode_danmu sample_libs 1000 frame_a st0)))"
    by blast
  from short a zero_length_frame_header b w ne c d show ?thesis by blast
qed

text \<open>
  C2 as stated fails: with 1000 nested calls allowed, 8 bytes of a header raise
  ValueError, a header with length 0 raises RecursionError, and the buffer of the whole
  frame \<open>frame_a\<close> and 8 more bytes raises with no command in the list, while \<open>frame_a\<close>
  alone gives \<open>cmd_a\<close>.
\<close>

theorem never_raises_counterexample:
  "decode_danmu sample_libs 1000 (take 8 frame_b) st0 = (Raised ValueError, st0) \<and>
   decode_danmu sample_libs 1000 zero_length_frame st0 = (Raised RecursionError, st0) \<and>
   decode_danmu sample_libs 1000 frame_a st0 = (Returned, st0\<lparr>danmu_list := [cmd_a]\<rparr>) \<and>
   decode_danmu sample_libs 1000 (frame_a @ take 8 frame_b) st0 = (Raised ValueError, st0)"
proof -
  have s: "1000 = Suc 999" "999 = Suc 998" by simp_all
  have a: "decode_danmu sample_libs n (take 8 frame_b) st0 = (Raised ValueError, st0)"
    if "n = Suc m" for n m
    unfolding that by (rule short_buffer_raises) (simp add: length_take8_frame_b)
  have b: "decode_danmu sample_libs 1000 zero_length_frame st0 = (Raised RecursionError, st0)"
    using zero_length_frame_header by (rule zero_length_recursion)
  have c: "decode_danmu sample_libs 1000 frame_a st0 = (Returned, st0\<lparr>danmu_list := [cmd_a]\<rparr>)"
    unfolding s(1) decode_frame_a by (simp add: append_danmu_def st0_def)
  have ne: "take 8 frame_b \<noteq> []" using length_take8_frame_b by auto
  have w: "whole_frame frame_a"
    using sample_frames_uncompressed(1) by (simp add: uncompressed_frame_def)
  have d: "decode_danmu sample_libs 1000 (frame_a @ take 8 frame_b) st0 = (Raised ValueError, st0)"
    unfolding s(1) using w ne a [OF s(2)] by (rule raising_tail_skips_head)
  from a [OF s(1)] b c d show ?thesis by blast
qed

text \<open>
  C3. A version-2 frame whose payload decompresses to \<open>M \<ge> 1\<close> uncompressed frames back
  to back is decoded as that payload is, one call deeper: the result is that of the
  \<open>M\<close> inner frames, each decoded once, and the wrapping frame adds nothing of its own.
\<close>

theorem compressed_frame_gives_inner_frames:
  assumes "compressed_frame f"
    and "zlib_decompress L (drop 16 f) = Inr (concat fs)"
    and "\<forall>g\<in>set fs. uncompressed_frame g" and "fs \<noteq> []" and "length fs \<le> n"
  shows "decode_danmu L (Suc n) f st = decode_danmu L n (concat fs) st
       \<and> decode_danmu L n (concat fs) st = (Returned, last_frame_first L fs st)"
  using decode_compressed_alone [OF assms(1), of L n st] assms(2)
    decode_concat_frames [OF assms(3,4,5), of L st]
  by simp

text \<open>
  The theorem at \<open>frame_z\<close>, whose payload is the compressed pair of the sample chat
  frames.
\<close>

theorem compressed_frame_gives_inner_frames_witness:
  "compressed_frame frame_z \<and>
   zlib_decompress sample_libs (drop 16 frame_z) = Inr (concat [frame_a, frame_b]) \<and>
   uncompressed_frame frame_a \<and> uncompressed_frame frame_b \<and>
   decode_danmu sample_libs 3 frame_z st0 = (Returned, st0\<lparr>danmu_list := [cmd_b, cmd_a]\<rparr>)"
proof -
  have u: "\<forall>g\<in>set [frame_a, frame_b]. uncompressed_frame g"
    using sample_frames_uncompressed by simp
  have "decode_danmu sample_libs (Suc 2) frame_z st0
      = (Returned, last_frame_first sample_libs [frame_a, frame_b] st0)"
    using compressed_frame_gives_inner_frames
      [OF sample_frames_compressed(1) sample_decompress_z u, of 2 st0]
    by simp
  moreover have "Suc 2 = 3" by simp
  ultimately have "decode_danmu sample_libs 3 frame_z st0
      = (Returned, st0\<lparr>danmu_list := [cmd_b, cmd_a]\<rparr>)"
    by (simp add: last_frame_first_def frame_alone_a frame_alone_b append_danmu_def st0_def)
  with sample_frames_compressed(1) sample_decompress_z sample_frames_uncompressed
  show ?thesis by blast
qed

text \<open>
  C4, as amended. A version-2 frame whose payload does not decompress makes
  \<^verbatim>\<open>decode_danmu\<close> raise the error of \<^verbatim>\<open>zlib.decompress\<close>: line 68 is outside the \<^verbatim>\<open>try\<close> of
  line 79, and \<^verbatim>\<open>recv_danmu\<close> has no handler, so the receive loop ends with that error
  and decodes no later message. The frame appends no command. When frames follow it in
  the buffer and their decoding returns, the commands they appended stay in the list.
\<close>

theorem failed_decompression_raises:
  assumes "compressed_frame f" and "zlib_decompress L (drop 16 f) = Inl e"
  shows "decode_danmu L (Suc n) f st = (Raised e, st) \<and>
         recv_danmu L (Suc n) (f # msgs) st = (Raised e, st) \<and>
         (rest \<noteq> [] \<and> decode_danmu L n rest st = (Returned, s1) \<longrightarrow>
            decode_danmu L (Suc n) (f @ rest) st = (Raised e, s1) \<and>
            recv_danmu L (Suc n) ((f @ rest) # msgs) st = (Raised e, s1) \<and>
            prefix (danmu_list st) (danmu_list s1))"
proof -
  have alone: "decode_danmu L (Suc n) f s = (Raised e, s)" for s
    using decode_compressed_alone [OF assms(1), of L n s] assms(2) by simp
  from assms(1) have w: "whole_frame f" by (simp add: compressed_frame_def)
  have "decode_danmu L (Suc n) (f @ rest) st = (Raised e, s1)
      \<and> prefix (danmu_list st) (danmu_list s1)"
    if "rest \<noteq> []" and r: "decode_danmu L n rest st = (Returned, s1)"
    using decode_head_frame [OF w that(1), of L n st] r alone [of s1]
      decode_danmu_keeps [of st L n rest]
    by simp
  then show ?thesis using alone [of st] by (simp add: recv_danmu_raised)
qed

text \<open>
  The theorem at \<open>frame_bad_z\<close>, a version-2 frame with an empty payload, alone and
  with \<open>frame_a\<close> after it.
\<close>

theorem failed_decompression_raises_witness:
  "compressed_frame frame_bad_z \<and>
   zlib_decompress sample_libs (drop 16 frame_bad_z) = Inl ZlibError \<and>
   decode_danmu sample_libs 2 frame_bad_z st0 = (Raised ZlibError, st0) \<and>
   recv_danmu sample_libs 2 [frame_bad_z, frame_a] st0 = (Raised ZlibError, st0) \<and>
   frame_a \<noteq> [] \<and>
   decode_danmu sample_libs 1 frame_a st0 = (Returned, st0\<lparr>danmu_list := [cmd_a]\<rparr>) \<and>
   decode_danmu sample_libs 2 (frame_bad_z @ frame_a) st0
     = (Raised ZlibError, st0\<lparr>danmu_list := [cmd_a]\<rparr>)"
proof -
  have a: "decode_danmu sample_libs 1 frame_a st0 = (Returned, st0\<lparr>danmu_list := [cmd_a]\<rparr>)"
    using decode_frame_a [of 0 st0] by (simp add: append_danmu_def st0_def)
  have ne: "frame_a \<noteq> []" by (simp add: frame_a_def mk_frame_def be32_def)
  from failed_decompression_raises [OF sample_frames_compressed(2) sample_decompress_bad,
      of 1 st0 "[frame_a]" frame_a "st0\<lparr>danmu_list := [cmd_a]\<rparr>"] a ne
  show ?thesis
    using sample_frames_compressed(2) sample_decompress_bad by (simp add: numeral_2_eq_2)
qed

text \<open>
  C4 as stated fails: the receive loop decodes \<open>frame_a\<close> when it comes alone, and ends
  with the error, \<open>frame_a\<close> never decoded, when \<open>frame_bad_z\<close> comes before it.
\<close>

theorem decompression_failure_counterexample:
  "compressed_frame frame_bad_z \<and>
   zlib_decompress sample_libs (drop 16 frame_bad_z) = Inl ZlibError \<and>
   decode_danmu sample_libs 1000 frame_bad_z st0 = (Raised ZlibError, st0) \<and>
   recv_danmu sample_libs 1000 [frame_a] st0 = (Returned, st0\<lparr>danmu_list := [cmd_a]\<rparr>) \<and>
   recv_danmu sample_libs 1000 [frame_bad_z, frame_a] st0 = (Raised ZlibError, st0)"
proof -
  have s: "1000 = Suc 999" by simp
  have bad: "decode_danmu sample_libs 1000 frame_bad_z st0 = (Raised ZlibError, st0)"
    unfolding s using decode_compressed_alone [OF sample_frames_compressed(2), of sample_libs 999 st0]
    by (simp add: sample_decompress_bad)
  have a: "decode_danmu sample_libs 1000 frame_a st0 = (Returned, st0\<lparr>danmu_list := [cmd_a]\<rparr>)"
    unfolding s decode_frame_a by (simp add: append_danmu_def st0_def)
  show ?thesis
    using sample_frames_compressed(2) sample_decompress_bad bad a by simp
qed

section \<open>Claims about the classification of chat messages\<close>

text \<open>
  C5, as amended. For every letter (by its index \<open>l\<close> below 26, in either case) and every
  number \<open>r\<close> below 100, the text of a marker prefix whose marks are of one kind (none,
  one or two ASCII marks, or one or two full-width marks), the letter and the number
  classifies to \<^verbatim>\<open>open\<close> for no marker, \<^verbatim>\<open>check\<close> for one and \<^verbatim>\<open>uncheck\<close> for two, with
  column \<open>l\<close> and row \<open>r\<close>; the text with the number before the letter classifies to the
  same command. The first group of the patterns of lines 106 and 121 has one
  alternative for each kind of mark, so the two marks of a prefix are never one of each.
\<close>

theorem cell_reference_classified:
  assumes "m \<in> set markers" and "l < 26" and "r < 100"
  shows "on_danmu_msg L user (PStr (m @ letter_text up l @ number_text r)) st
           = Inr (append_danmu (user, marker_operation m, Cell (int l) (int r)) st)
       \<and> on_danmu_msg L user (PStr (m @ number_text r @ letter_text up l)) st
           = Inr (append_danmu (user, marker_operation m, Cell (int l) (int r)) st)"
  using classify_letter_first [OF assms, of "[]" L user up st]
    classify_digit_first [OF assms, of L user up "[]" st]
  by simp

text \<open>
  The theorem at the texts \<^verbatim>\<open>A5\<close>, \<^verbatim>\<open>5A\<close>, \<^verbatim>\<open>!A5\<close>, \<^verbatim>\<open>!!A5\<close>, at \<^verbatim>\<open>A5\<close> after two full-width
  marks and at \<^verbatim>\<open>!42z\<close>.
\<close>

theorem cell_reference_classified_witness:
  "on_danmu_msg sample_libs ann (PStr (ascii ''A5'')) st0
     = Inr (append_danmu (ann, ''open'', Cell 0 5) st0) \<and>
   on_danmu_msg sample_libs ann (PStr (ascii ''5A'')) st0
     = Inr (append_danmu (ann, ''open'', Cell 0 5) st0) \<and>
   on_danmu_msg sample_libs ann (PStr (ascii ''!A5'')) st0
     = Inr (append_danmu (ann, ''check'', Cell 0 5) st0) \<and>
   on_danmu_msg sample_libs ann (PStr (ascii ''!!A5'')) st0
     = Inr (append_danmu (ann, ''uncheck'', Cell 0 5) st0) \<and>
   on_danmu_msg sample_libs ann (PStr ([fullwidth_bang, fullwidth_bang] @ ascii ''A5'')) st0
     = Inr (append_danmu (ann, ''uncheck'', Cell 0 5) st0) \<and>
   on_danmu_msg sample_libs ann (PStr (ascii ''!42z'')) st0
     = Inr (append_danmu (ann, ''check'', Cell 25 42) st0)"
proof -
  have m: "[] \<in> set markers" "[33] \<in> set markers" "[33, 33] \<in> set markers"
    "[fullwidth_bang, fullwidth_bang] \<in> set markers"
    by (simp_all add: markers_def)
  have t: "letter_text True 0 = ascii ''A''" "number_text 5 = ascii ''5''"
    "letter_text False 25 = ascii ''z''" "number_text 42 = ascii ''42''"
    by (simp_all add: letter_text_def number_text_def ascii_def)
  have l: "(0::nat) < 26" "(25::nat) < 26" and r: "(5::nat) < 100" "(42::nat) < 100"
    by simp_all
  show ?thesis
    using cell_reference_classified [OF m(1) l(1) r(1), of sample_libs ann True st0]
      cell_reference_classified [OF m(2) l(1) r(1), of sample_libs ann True st0]
      cell_reference_classified [OF m(3) l(1) r(1), of sample_libs ann True st0]
      cell_reference_classified [OF m(4) l(1) r(1), of sample_libs ann True st0]
      cell_reference_classified [OF m(2) l(2) r(2), of sample_libs ann False st0]
    by (simp add: t marker_operation_def ascii_def)
qed

text \<open>
  C5 as stated fails: two markers, one ASCII and one full-width in either order, before
  \<^verbatim>\<open>A5\<close> match no pattern and append no command, while two marks of one kind append
  the \<^verbatim>\<open>uncheck\<close> command.
\<close>

theorem mixed_markers_counterexample:
  "on_danmu_msg sample_libs ann (PStr ([33, fullwidth_bang] @ ascii ''A5'')) st0 = Inr st0 \<and>
   on_danmu_msg sample_libs ann (PStr ([fullwidth_bang, 33] @ ascii ''A5'')) st0 = Inr st0 \<and>
   on_danmu_msg sample_libs ann (PStr ([33, 33] @ ascii ''A5'')) st0
     = Inr (st0\<lparr>danmu_list := [(ann, ''uncheck'', Cell 0 5)]\<rparr>) \<and>
   on_danmu_msg sample_libs ann (PStr ([fullwidth_bang, fullwidth_bang] @ ascii ''A5'')) st0
     = Inr (st0\<lparr>danmu_list := [(ann, ''uncheck'', Cell 0 5)]\<rparr>)"
  by (simp add: on_danmu_msg_def rx_defs ascii_def append_danmu_def st0_def bindE_def)

text \<open>
  C6, as amended. A text equal to \<^verbatim>\<open>easy\<close> or \<^verbatim>\<open>normal\<close> written all in lower case or all
  in upper case classifies to \<^verbatim>\<open>difficulty\<close> with the word in upper case: the pattern of
  line 136 lists these four spellings and no other.
\<close>

theorem level_words_classified:
  "on_danmu_msg L user (PStr (ascii ''easy'')) st
     = Inr (append_danmu (user, ''difficulty'', Str (ascii ''EASY'')) st) \<and>
   on_danmu_msg L user (PStr (ascii ''EASY'')) st
     = Inr (append_danmu (user, ''difficulty'', Str (ascii ''EASY'')) st) \<and>
   on_danmu_msg L user (PStr (ascii ''normal'')) st
     = Inr (append_danmu (user, ''difficulty'', Str (ascii ''NORMAL'')) st) \<and>
   on_danmu_msg L user (PStr (ascii ''NORMAL'')) st
     = Inr (append_danmu (user, ''difficulty'', Str (ascii ''NORMAL'')) st)"
  using level_words [of L user "[]" st] by simp

text \<open>
  C6 as stated fails: \<^verbatim>\<open>Easy\<close> matches none of the patterns and appends no command, while
  \<^verbatim>\<open>easy\<close> appends the command of level \<^verbatim>\<open>EASY\<close>.
\<close>

theorem mixed_case_level_counterexample:
  "on_danmu_msg sample_libs ann (PStr (ascii ''Easy'')) st0 = Inr st0 \<and>
   on_danmu_msg sample_libs ann (PStr (ascii ''easy'')) st0
     = Inr (st0\<lparr>danmu_list := [(ann, ''difficulty'', Str (ascii ''EASY''))]\<rparr>)"
  by (simp add: on_danmu_msg_def rx_defs ascii_def append_danmu_def st0_def)

text \<open>
  C10, as amended. The patterns match a prefix of the text: a text that begins with a
  cell reference (marker prefix, letter, number below 100, or number before letter) or
  with \<^verbatim>\<open>easy\<close> or \<^verbatim>\<open>normal\<close> classifies to the command of that prefix whatever follows,
  with one exception: after a letter and a number of one digit, a following digit is
  read as the second digit of the row.
\<close>

theorem classification_matches_prefix:
  assumes "m \<in> set markers" and "l < 26" and "r < 100"
  shows "(10 \<le> r \<or> t = [] \<or> \<not> is_digit L (hd t) \<longrightarrow>
            on_danmu_msg L user (PStr (m @ letter_text up l @ number_text r @ t)) st
              = Inr (append_danmu (user, marker_operation m, Cell (int l) (int r)) st)) \<and>
         on_danmu_msg L user (PStr (m @ number_text r @ letter_text up l @ t)) st
           = Inr (append_danmu (user, marker_operation m, Cell (int l) (int r)) st) \<and>
         on_danmu_msg L user (PStr (ascii ''easy'' @ t)) st
           = Inr (append_danmu (user, ''difficulty'', Str (ascii ''EASY'')) st) \<and>
         on_danmu_msg L user (PStr (ascii ''normal'' @ t)) st
           = Inr (append_danmu (user, ''difficulty'', Str (ascii ''NORMAL'')) st)"
  using classify_letter_first [OF assms, of t L user up st]
    classify_digit_first [OF assms, of L user up t st] level_words(1,2) [of L user t st]
  by blast

text \<open>
  The theorem at \<^verbatim>\<open>A5 hello\<close>, \<^verbatim>\<open>A57\<close>, \<^verbatim>\<open>5A7\<close> and \<^verbatim>\<open>easygoing\<close>.
\<close>

theorem classification_matches_prefix_witness:
  "\<not> is_digit sample_libs (hd (ascii '' hello'')) \<and>
   on_danmu_msg sample_libs ann (PStr (ascii ''A5 hello'')) st0
     = Inr (append_danmu (ann, ''open'', Cell 0 5) st0) \<and>
   on_danmu_msg sample_libs ann (PStr (ascii ''A57'')) st0
     = Inr (append_danmu (ann, ''open'', Cell 0 57) st0) \<and>
   on_danmu_msg sample_libs ann (PStr (ascii ''5A7'')) st0
     = Inr (append_danmu (ann, ''open'', Cell 0 5) st0) \<and>
   on_danmu_msg sample_libs ann (PStr (ascii ''easygoing'')) st0
     = Inr (append_danmu (ann, ''difficulty'', Str (ascii ''EASY'')) st0)"
proof -
  have m: "[] \<in> set markers" by (simp add: markers_def)
  have t: "letter_text True 0 = ascii ''A''" "number_text 5 = ascii ''5''"
    "number_text 57 = ascii ''57''"
    by (simp_all add: letter_text_def number_text_def ascii_def)
  have l: "(0::nat) < 26" and r: "(5::nat) < 100" "(57::nat) < 100" by simp_all
  have h: "\<not> is_digit sample_libs (hd (ascii '' hello''))"
    by (simp add: ascii_def is_digit_def decimal_def fullwidth_bang_def)
  show ?thesis
    using classification_matches_prefix [OF m l r(1), of "ascii '' hello''" sample_libs ann True st0]
      classification_matches_prefix [OF m l r(2), of "[]" sample_libs ann True st0]
      classification_matches_prefix [OF m l r(1), of "ascii ''7''" sample_libs ann True st0]
      classification_matches_prefix [OF m l r(1), of "ascii ''going''" sample_libs ann True st0]
      h
    by (simp add: t marker_operation_def ascii_def)
qed

text \<open>
  C10 as stated fails: \<^verbatim>\<open>A57\<close> begins with the cell reference \<^verbatim>\<open>A5\<close>, and its command
  has row 57, not the row 5 of \<^verbatim>\<open>A5\<close>.
\<close>

theorem trailing_digit_counterexample:
  "on_danmu_msg sample_libs ann (PStr (ascii ''A5'')) st0
     = Inr (st0\<lparr>danmu_list := [(ann, ''open'', Cell 0 5)]\<rparr>) \<and>
   on_danmu_msg sample_libs ann (PStr (ascii ''A5'' @ ascii ''7'')) st0
     = Inr (st0\<lparr>danmu_list := [(ann, ''open'', Cell 0 57)]\<rparr>)"
  by (simp add: on_danmu_msg_def rx_defs ascii_def append_danmu_def st0_def bindE_def)

section \<open>Claims about business events\<close>

text \<open>
  C7. An uncompressed opcode-5 frame whose payload is no JSON, or whose JSON lacks a key
  the code reads, or has a \<^verbatim>\<open>cmd\<close> that is none of the three the code knows, leaves the
  client as it was: \<^verbatim>\<open>decode_danmu\<close> returns, no command is appended, and the receive
  loop goes on with the next message.
\<close>

theorem malformed_business_event_ignored:
  assumes "opcode5_frame f"
    and "isl (frame_json L f)
         \<or> (\<exists>jd. frame_json L f = Inr jd \<and> (lacks_keys jd \<or> cmd_unrecognized jd))"
  shows "decode_danmu L (Suc n) f st = (Returned, st)
       \<and> recv_danmu L (Suc n) (f # msgs) st = recv_danmu L (Suc n) msgs st"
proof -
  have "on_op5 L (drop 16 f) st = st"
    using assms(2)
  proof (elim disjE exE conjE)
    assume "isl (frame_json L f)"
    then show ?thesis
      by (cases "frame_json L f") (simp_all add: on_op5_frame_json bindE_def)
  next
    fix jd assume jd: "frame_json L f = Inr jd" and "lacks_keys jd"
    then have "isl (on_business L jd st)" by (simp add: lacks_keys_raises)
    then show ?thesis
      by (cases "on_business L jd st") (simp_all add: on_op5_frame_json bindE_def jd)
  next
    fix jd assume jd: "frame_json L f = Inr jd" and "cmd_unrecognized jd"
    then show ?thesis
      by (simp add: on_op5_frame_json bindE_def cmd_unrecognized_ignored)
  qed
  then have "decode_danmu L (Suc n) f st = (Returned, st)"
    by (simp add: decode_opcode5_frame [OF assms(1)])
  then show ?thesis by simp
qed

text \<open>
  The theorem at a payload cut inside its JSON, at a gift event with no \<^verbatim>\<open>data\<close>, and
  at a \<^verbatim>\<open>cmd\<close> the code does not know; the receive loop decodes the chat frame that
  comes after the three.
\<close>

theorem malformed_business_event_ignored_witness:
  "opcode5_frame frame_cut \<and> isl (frame_json sample_libs frame_cut) \<and>
   decode_danmu sample_libs 1 frame_cut st0 = (Returned, st0) \<and>
   opcode5_frame frame_nodata \<and>
   lacks_keys (PDict [(ascii ''cmd'', PStr (ascii ''SEND_GIFT''))]) \<and>
   decode_danmu sample_libs 1 frame_nodata st0 = (Returned, st0) \<and>
   opcode5_frame frame_notice \<and>
   cmd_unrecognized (PDict [(ascii ''cmd'', PStr (ascii ''NOTICE_MSG''))]) \<and>
   decode_danmu sample_libs 1 frame_notice st0 = (Returned, st0) \<and>
   recv_danmu sample_libs 1 [frame_cut, frame_nodata, frame_notice, frame_a] st0
     = (Returned, st0\<lparr>danmu_list := [cmd_a]\<rparr>)"
proof -
  have o: "opcode5_frame frame_cut" "opcode5_frame frame_nodata" "opcode5_frame frame_notice"
    by (simp_all add: business_opcode5 sample_frames_business)
  have c: "isl (frame_json sample_libs frame_cut)" by (simp add: json_frame_cut)
  have k: "lacks_keys (PDict [(ascii ''cmd'', PStr (ascii ''SEND_GIFT''))])"
    by (simp add: lacks_keys_def ascii_def)
  have u: "cmd_unrecognized (PDict [(ascii ''cmd'', PStr (ascii ''NOTICE_MSG''))])"
    by (simp add: cmd_unrecognized_def cmd_recognized_def ascii_def)
  note cut = malformed_business_event_ignored [OF o(1), of sample_libs 0 st0]
  note nodata = malformed_business_event_ignored [OF o(2), of sample_libs 0 st0]
  note notice = malformed_business_event_ignored [OF o(3), of sample_libs 0 st0]
  have 1: "decode_danmu sample_libs 1 frame_cut st0 = (Returned, st0)"
    "recv_danmu sample_libs 1 (frame_cut # msgs) st0 = recv_danmu sample_libs 1 msgs st0" for msgs
    using cut [of msgs] c by simp_all
  have 2: "decode_danmu sample_libs 1 frame_nodata st0 = (Returned, st0)"
    "recv_danmu sample_libs 1 (frame_nodata # msgs) st0 = recv_danmu sample_libs 1 msgs st0" for msgs
    using nodata [of msgs] k json_frame_nodata by simp_all
  have 3: "decode_danmu sample_libs 1 frame_notice st0 = (Returned, st0)"
    "recv_danmu sample_libs 1 (frame_notice # msgs) st0 = recv_danmu sample_libs 1 msgs st0" for msgs
    using notice [of msgs] u json_frame_notice by simp_all
  have "recv_danmu sample_libs 1 [frame_cut, frame_nodata, frame_notice, frame_a] st0
     = (Returned, st0\<lparr>danmu_list := [cmd_a]\<rparr>)"
    unfolding 1 2 3 using decode_frame_a [of 0 st0] by (simp add: append_danmu_def st0_def)
  with o c k u 1(1) 2(1) 3(1) show ?thesis by blast
qed

text \<open>
  C8. A \<^verbatim>\<open>SEND_GIFT\<close> event with its three keys appends the gift command of \<^verbatim>\<open>data.uname\<close>
  when \<^verbatim>\<open>data.giftName\<close> is the name of line 85, and appends nothing for any other gift
  name; a \<^verbatim>\<open>GUARD_BUY\<close> event appends the gift command of \<^verbatim>\<open>data.username\<close>.
\<close>

theorem gift_events_append:
  assumes "business_frame f" and "frame_json L f = Inr jd"
    and "getitem_str jd (ascii ''data'') = Inr d"
  shows "(getitem_str jd (ascii ''cmd'') = Inr (PStr (ascii ''SEND_GIFT'')) \<and>
          getitem_str d (ascii ''uname'') = Inr u \<and> getitem_str d (ascii ''num'') = Inr k \<and>
          getitem_str d (ascii ''giftName'') = Inr g \<longrightarrow>
            fst (decode_danmu L (Suc n) f st) = Returned \<and>
            danmu_list (snd (decode_danmu L (Suc n) f st))
              = danmu_list st @ (if g = PStr gift_name then [(u, ''gift'', Str [])] else [])) \<and>
         (getitem_str jd (ascii ''cmd'') = Inr (PStr (ascii ''GUARD_BUY'')) \<and>
          getitem_str d (ascii ''username'') = Inr u \<longrightarrow>
            fst (decode_danmu L (Suc n) f st) = Returned \<and>
            danmu_list (snd (decode_danmu L (Suc n) f st))
              = danmu_list st @ [(u, ''gift'', Str [])])"
proof (intro conjI impI)
  assume a: "getitem_str jd (ascii ''cmd'') = Inr (PStr (ascii ''SEND_GIFT'')) \<and>
          getitem_str d (ascii ''uname'') = Inr u \<and> getitem_str d (ascii ''num'') = Inr k \<and>
          getitem_str d (ascii ''giftName'') = Inr g"
  then have "on_business L jd st
      = (if g = PStr gift_name then Inr (append_danmu (u, ''gift'', Str []) st) else Inr st)"
    by (simp add: on_business_send_gift assms(3) bindE_def)
  then show "fst (decode_danmu L (Suc n) f st) = Returned"
    and "danmu_list (snd (decode_danmu L (Suc n) f st))
              = danmu_list st @ (if g = PStr gift_name then [(u, ''gift'', Str [])] else [])"
    by (simp_all add: decode_business_json [OF assms(1,2)] append_danmu_def)
next
  assume a: "getitem_str jd (ascii ''cmd'') = Inr (PStr (ascii ''GUARD_BUY'')) \<and>
          getitem_str d (ascii ''username'') = Inr u"
  then have "on_business L jd st = Inr (append_danmu (u, ''gift'', Str []) st)"
    by (simp add: on_business_guard_buy assms(3) bindE_def)
  then show "fst (decode_danmu L (Suc n) f st) = Returned"
    and "danmu_list (snd (decode_danmu L (Suc n) f st)) = danmu_list st @ [(u, ''gift'', Str [])]"
    by (simp_all add: decode_business_json [OF assms(1,2)] append_danmu_def)
qed

text \<open>
  The theorem at a gift of the tracked name, a gift of another name and a purchase.
\<close>

theorem gift_events_append_witness:
  "business_frame frame_gift \<and> business_frame frame_flower \<and> business_frame frame_guard \<and>
   decode_danmu sample_libs 1 frame_gift st0
     = (Returned, st0\<lparr>danmu_list := [(ann, ''gift'', Str [])]\<rparr>) \<and>
   decode_danmu sample_libs 1 frame_flower st0 = (Returned, st0) \<and>
   decode_danmu sample_libs 1 frame_guard st0
     = (Returned, st0\<lparr>danmu_list := [(PStr (ascii ''bob''), ''gift'', Str [])]\<rparr>)"
proof -
  note b = sample_frames_business(3,4,5)
  have data: "getitem_str (PDict [(ascii ''cmd'', c), (ascii ''data'', d)]) (ascii ''data'') = Inr d"
    for c d by (simp add: ascii_def)
  have send: "getitem_str (PDict [(ascii ''cmd'', PStr (ascii ''SEND_GIFT'')), (ascii ''data'', d)])
        (ascii ''cmd'') = Inr (PStr (ascii ''SEND_GIFT'')) \<and>
      getitem_str (PDict [(ascii ''uname'', x), (ascii ''num'', y), (ascii ''giftName'', z)])
        (ascii ''uname'') = Inr x \<and>
      getitem_str (PDict [(ascii ''uname'', x), (ascii ''num'', y), (ascii ''giftName'', z)])
        (ascii ''num'') = Inr y \<and>
      getitem_str (PDict [(ascii ''uname'', x), (ascii ''num'', y), (ascii ''giftName'', z)])
        (ascii ''giftName'') = Inr z" for d x y z
    by (simp add: ascii_def)
  have buy: "getitem_str (PDict [(ascii ''cmd'', PStr (ascii ''GUARD_BUY'')), (ascii ''data'', d)])
        (ascii ''cmd'') = Inr (PStr (ascii ''GUARD_BUY'')) \<and>
      getitem_str (PDict [(ascii ''username'', x)]) (ascii ''username'') = Inr x" for d x
    by (simp add: ascii_def)
  have gift: "fst (decode_danmu sample_libs (Suc 0) frame_gift st0) = Returned \<and>
    danmu_list (snd (decode_danmu sample_libs (Suc 0) frame_gift st0)) = [(ann, ''gift'', Str [])]"
    using gift_events_append [OF b(1) json_frame_gift data, THEN conjunct1, THEN mp, OF send,
        of 0 st0]
    by (simp add: gift_name_def ann_def st0_def)
  have flower: "fst (decode_danmu sample_libs (Suc 0) frame_flower st0) = Returned \<and>
    danmu_list (snd (decode_danmu sample_libs (Suc 0) frame_flower st0)) = []"
    using gift_events_append [OF b(2) json_frame_flower data, THEN conjunct1, THEN mp, OF send,
        of 0 st0]
    by (simp add: gift_name_def ascii_def st0_def)
  have guard: "fst (decode_danmu sample_libs (Suc 0) frame_guard st0) = Returned \<and>
    danmu_list (snd (decode_danmu sample_libs (Suc 0) frame_guard st0))
       = [(PStr (ascii ''bob''), ''gift'', Str [])]"
    using gift_events_append [OF b(3) json_frame_guard data, THEN conjunct2, THEN mp, OF buy,
        of 0 st0]
    by (simp add: st0_def)
  have r: "room_id (snd (decode_danmu sample_libs (Suc 0) f st0)) = room_id st0" for f
    using decode_danmu_keeps [of st0 sample_libs "Suc 0" f] by simp
  have eq: "decode_danmu sample_libs 1 f st0 = (Returned, st0\<lparr>danmu_list := l\<rparr>)"
    if "fst (decode_danmu sample_libs (Suc 0) f st0) = Returned \<and>
      danmu_list (snd (decode_danmu sample_libs (Suc 0) f st0)) = l" for f l
    using that r [of f] by (cases "decode_danmu sample_libs (Suc 0) f st0") auto
  from eq [OF gift] eq [OF flower] eq [OF guard] b show ?thesis
    by (simp add: st0_def)
qed

section \<open>The claim about the command list\<close>

text \<open>
  C9. \<^verbatim>\<open>get_danmu_list\<close> returns the commands of the list in the order of their appends
  and leaves the list empty, so a second call with no append between returns the empty
  list. Under every schedule of the two threads the four statements of
  \<^verbatim>\<open>get_danmu_list\<close> act as that one step (the copy it holds is the list it clears), and
  the commands returned so far, followed by the copy about to be returned and by the
  list, are the commands appended so far, in order: no command is lost and none is
  returned twice.
\<close>

theorem drain_delivers_each_command_once:
  "fst (get_danmu_list st) = danmu_list st \<and>
   danmu_list (snd (get_danmu_list st)) = [] \<and>
   fst (get_danmu_list (snd (get_danmu_list st))) = [] \<and>
   (getter w = GIdle \<and> \<not> lock_held w \<longrightarrow>
      run_schedule [GetAcquire, GetCopy, GetClear, GetRelease] w
        = Some (w\<lparr>client := snd (get_danmu_list (client w)),
                  delivered := delivered w @ fst (get_danmu_list (client w))\<rparr>)) \<and>
   (run_schedule es (start rid) = Some w' \<longrightarrow>
      delivered w' @ in_flight w' @ danmu_list (client w') = pushed w' \<and>
      (\<forall>l. getter w' = GCopied l \<longrightarrow> l = danmu_list (client w')) \<and>
      (getter w' = GIdle \<or> appender w' = AIdle))"
proof -
  have "lock_inv w'" if "run_schedule es (start rid) = Some w'"
    using start_lock_inv that by (rule run_schedule_lock_inv)
  then have "run_schedule es (start rid) = Some w' \<longrightarrow>
      delivered w' @ in_flight w' @ danmu_list (client w') = pushed w' \<and>
      (\<forall>l. getter w' = GCopied l \<longrightarrow> l = danmu_list (client w')) \<and>
      (getter w' = GIdle \<or> appender w' = AIdle)"
    by (auto simp: lock_inv_def)
  then show ?thesis
    using get_danmu_list_steps [of w] by (simp add: get_danmu_list_def)
qed

text \<open>
  The theorem at a schedule of two appends and two calls of \<^verbatim>\<open>get_danmu_list\<close>, the
  second stopped before its return; an append cannot take the lock between the copy and
  the clear of a call.
\<close>

theorem drain_delivers_each_command_once_witness:
  "run_schedule [AppendAcquire cmd_a, AppendDo, AppendRelease, GetAcquire, GetCopy,
       AppendAcquire cmd_b] (start []) = None \<and>
   run_schedule [AppendAcquire cmd_a, AppendDo, AppendRelease, GetAcquire, GetCopy,
       GetClear, GetRelease, AppendAcquire cmd_b, AppendDo, AppendRelease, GetAcquire,
       GetCopy, GetClear] (start [])
     = Some \<lparr>client = \<lparr>room_id = [], danmu_list = []\<rparr>, lock_held = True,
             getter = GCleared [cmd_b], appender = AIdle, pushed = [cmd_a, cmd_b],
             delivered = [cmd_a]\<rparr> \<and>
   delivered \<lparr>client = \<lparr>room_id = [], danmu_list = []\<rparr>, lock_held = True,
             getter = GCleared [cmd_b], appender = AIdle, pushed = [cmd_a, cmd_b],
             delivered = [cmd_a]\<rparr>
     @ in_flight \<lparr>client = \<lparr>room_id = [], danmu_list = []\<rparr>, lock_held = True,
             getter = GCleared [cmd_b], appender = AIdle, pushed = [cmd_a, cmd_b],
             delivered = [cmd_a]\<rparr> = [cmd_a, cmd_b] \<and>
   getter (start []) = GIdle \<and> \<not> lock_held (start []) \<and>
   run_schedule [GetAcquire, GetCopy, GetClear, GetRelease] (start []) = Some (start [])"
proof -
  let ?w = "\<lparr>client = \<lparr>room_id = [], danmu_list = []\<rparr>, lock_held = True,
             getter = GCleared [cmd_b], appender = AIdle, pushed = [cmd_a, cmd_b],
             delivered = [cmd_a]\<rparr>"
  have blocked: "run_schedule [AppendAcquire cmd_a, AppendDo, AppendRelease, GetAcquire, GetCopy,
       AppendAcquire cmd_b] (start []) = None"
    by (simp add: start_def append_danmu_def)
  have r: "run_schedule [AppendAcquire cmd_a, AppendDo, AppendRelease, GetAcquire, GetCopy,
       GetClear, GetRelease, AppendAcquire cmd_b, AppendDo, AppendRelease, GetAcquire,
       GetCopy, GetClear] (start []) = Some ?w"
    by (simp add: start_def append_danmu_def)
  have i: "getter (start []) = GIdle" "\<not> lock_held (start [])" by (simp_all add: start_def)
  note t = drain_delivers_each_command_once [of "client (start [])" "start []" _ "[]" ?w]
  from t r have "delivered ?w @ in_flight ?w @ danmu_list (client ?w) = pushed ?w" by blast
  then have d: "delivered ?w @ in_flight ?w = [cmd_a, cmd_b]" by simp
  from t i have "run_schedule [GetAcquire, GetCopy, GetClear, GetRelease] (start [])
        = Some ((start [])\<lparr>client := snd (get_danmu_list (client (start []))),
                  delivered := delivered (start []) @ fst (get_danmu_list (client (start [])))\<rparr>)"
    by blast
  then have g: "run_schedule [GetAcquire, GetCopy, GetClear, GetRelease] (start []) = Some (start [])"
    by (simp add: start_def get_danmu_list_def)
  from blocked r d i g show ?thesis by blast
qed

end
